theory Spec2Isabelle
  imports Main "HOL-Library.Word" "HOL-Library.Log_Nat" "HOL-Library.Sublist"
    "HOL-Library.Char_ord" "HOL-Library.List_Lexorder"
begin

unbundle bit_operations_syntax

section \<open>JavaScript numbers and buffers\<close>

text \<open>
  A JavaScript number that holds an integer is an \<open>int\<close>. The bitwise operators first
  convert their operands to 32 bits (\<open>ToInt32\<close>, or \<open>ToUint32\<close> for \<open>>>>\<close>), and a shift
  count is taken modulo 32. A \<open>Buffer\<close> is a list of bytes; \<open>Buffer.from(array)\<close> keeps
  the low eight bits of every entry.
\<close>

type_synonym byte = "8 word"
type_synonym buffer = "byte list"

definition to_int32 :: "int \<Rightarrow> int" where
  "to_int32 x = (x + 2 ^ 31) mod 2 ^ 32 - 2 ^ 31"

definition to_uint32 :: "int \<Rightarrow> int" where
  "to_uint32 x = x mod 2 ^ 32"

definition js_and :: "int \<Rightarrow> int \<Rightarrow> int" where
  "js_and a b = to_int32 a AND to_int32 b"

definition js_or :: "int \<Rightarrow> int \<Rightarrow> int" where
  "js_or a b = to_int32 a OR to_int32 b"

definition js_shl :: "int \<Rightarrow> nat \<Rightarrow> int" where
  "js_shl a n = to_int32 (to_int32 a * 2 ^ (n mod 32))"

definition js_ushr :: "int \<Rightarrow> nat \<Rightarrow> int" where
  "js_ushr a n = to_uint32 a div 2 ^ (n mod 32)"

definition Buffer_from :: "int list \<Rightarrow> buffer" where
  "Buffer_from parts = map word_of_int parts"

section \<open>Wire codec: varints (protobuf.mjs)\<close>

text \<open>
  \<open>ProtobufEncoder._varint\<close>: the loop \<open>while (value > 0x7f)\<close> pushes
  \<open>(value & 0x7f) | 0x80\<close> and replaces \<open>value\<close> by \<open>value >>> 7\<close>; the last byte is
  \<open>value & 0x7f\<close>.
\<close>

function varint :: "int \<Rightarrow> int list" where
  "varint v =
     (if v > 127 then js_or (js_and v 127) 128 # varint (js_ushr v 7)
      else [js_and v 127])"
  by pat_completeness auto
termination
proof (relation "measure nat")
  show "wf (measure nat)" by simp
next
  fix v :: int
  assume "127 < v"
  have "v mod 4294967296 \<le> v"
    using \<open>127 < v\<close> by (intro zmod_le_nonneg_dividend) simp
  moreover have "(v mod 4294967296) div 128 \<le> v mod 4294967296 div 1"
    by (intro zdiv_mono2) simp_all
  moreover have "(v mod 4294967296) div 128 < v"
  proof (cases "v mod 4294967296 = 0")
    case True
    then show ?thesis using \<open>127 < v\<close> by simp
  next
    case False
    moreover have "0 \<le> v mod 4294967296" by simp
    ultimately have "0 < v mod 4294967296" by linarith
    then have "(v mod 4294967296) div 128 < v mod 4294967296"
      by (intro int_div_less_self) simp_all
    then show ?thesis using \<open>v mod 4294967296 \<le> v\<close> by linarith
  qed
  ultimately show "(js_ushr v 7, v) \<in> measure nat"
    using \<open>127 < v\<close> by (simp add: js_ushr_def to_uint32_def)
qed

text \<open>
  \<open>decodeVarint(buf, offset)\<close>: the loop runs while \<open>offset < buf.length\<close>; each byte adds
  \<open>(b & 0x7f) << shift\<close> with \<open>|=\<close> and the loop stops after a byte without the
  continuation bit. The result is the pair of the value and the new offset.
\<close>

fun decodeVarint_loop :: "buffer \<Rightarrow> int \<Rightarrow> nat \<Rightarrow> nat \<Rightarrow> int \<times> nat" where
  "decodeVarint_loop [] val shift offset = (val, offset)"
| "decodeVarint_loop (b # bs) val shift offset =
     (let val' = js_or val (js_shl (js_and (uint b) 127) shift) in
      if js_and (uint b) 128 = 0 then (val', offset + 1)
      else decodeVarint_loop bs val' (shift + 7) (offset + 1))"

definition decodeVarint :: "buffer \<Rightarrow> nat \<Rightarrow> int \<times> nat" where
  "decodeVarint buf offset = decodeVarint_loop (drop offset buf) 0 0 offset"

section \<open>Frame transport (protobuf.mjs)\<close>

text \<open>
  What the code can throw is a value of \<open>js_error\<close>. \<open>buf.readUInt32BE(off)\<close> and
  \<open>buf.writeUInt32BE(value, off)\<close> raise a range error when the four bytes do not lie
  inside the buffer or the value does not fit 32 bits; \<open>buf.subarray(start, end)\<close> clamps
  both ends to the buffer.
\<close>

datatype js_error = RangeError | Thrown string

definition readUInt32BE :: "buffer \<Rightarrow> nat \<Rightarrow> js_error + nat" where
  "readUInt32BE buf off =
     (if off + 4 \<le> length buf
      then Inr (unat (buf ! off) * 2 ^ 24 + unat (buf ! (off + 1)) * 2 ^ 16
                + unat (buf ! (off + 2)) * 2 ^ 8 + unat (buf ! (off + 3)))
      else Inl RangeError)"

definition uint32BE_bytes :: "nat \<Rightarrow> buffer" where
  "uint32BE_bytes n =
     [word_of_nat (n div 2 ^ 24), word_of_nat (n div 2 ^ 16), word_of_nat (n div 2 ^ 8),
      word_of_nat n]"

definition subarray :: "buffer \<Rightarrow> nat \<Rightarrow> nat \<Rightarrow> buffer" where
  "subarray buf start end = drop start (take end buf)"

text \<open>
  \<open>gzipSync\<close> and \<open>gunzipSync\<close> belong to Node's zlib binding and are parameters of the
  model; \<open>gunzipSync\<close> returns \<open>None\<close> where zlib throws.

  \<open>connectFrameEncode(protoBytes, compress)\<close>: a five-byte header, the flag byte and the
  big-endian length of the payload as sent, then that payload.
\<close>

definition connectFrameEncode ::
  "(buffer \<Rightarrow> buffer) \<Rightarrow> buffer \<Rightarrow> bool \<Rightarrow> js_error + buffer" where
  "connectFrameEncode gzipSync protoBytes compress =
     (let payload = (if compress then gzipSync protoBytes else protoBytes);
          flags = (if compress then 1 else 0 :: byte)
      in if length payload < 2 ^ 32
         then Inr ((flags # uint32BE_bytes (length payload)) @ payload)
         else Inl RangeError)"

text \<open>
  \<open>connectFrameDecode(data)\<close>: while \<open>i + 5 <= data.length\<close>, read the flag byte and the
  length, take the payload with \<open>subarray\<close>, advance, and for the flags 1 and 3 try
  \<open>gunzipSync\<close>, keeping the raw payload when it throws.
\<close>

function connectFrameDecode_loop ::
  "(buffer \<Rightarrow> buffer option) \<Rightarrow> buffer \<Rightarrow> nat \<Rightarrow> buffer list \<Rightarrow> js_error + buffer list" where
  "connectFrameDecode_loop gunzipSync data i frames =
     (if i + 5 \<le> length data then
        (case readUInt32BE data (i + 1) of
           Inl e \<Rightarrow> Inl e
         | Inr len \<Rightarrow>
             (let flags = data ! i;
                  raw = subarray data (i + 5) (i + 5 + len);
                  payload = (if flags = 1 \<or> flags = 3
                             then (case gunzipSync raw of Some p \<Rightarrow> p | None \<Rightarrow> raw)
                             else raw)
              in connectFrameDecode_loop gunzipSync data (i + 5 + len) (frames @ [payload])))
      else Inr frames)"
  by pat_completeness auto
termination
  by (relation "measure (\<lambda>(g, data, i, frames). length data - i)") auto

definition connectFrameDecode ::
  "(buffer \<Rightarrow> buffer option) \<Rightarrow> buffer \<Rightarrow> js_error + buffer list" where
  "connectFrameDecode gunzipSync data = connectFrameDecode_loop gunzipSync data 0 []"

text \<open>
  The payload a frame contributes, as the loop body computes it from the flag byte and the
  raw bytes; used to state what the decoder returns.
\<close>

definition frame_payload :: "(buffer \<Rightarrow> buffer option) \<Rightarrow> byte \<Rightarrow> buffer \<Rightarrow> buffer" where
  "frame_payload g flags raw =
     (if flags = 1 \<or> flags = 3 then (case g raw of Some p \<Rightarrow> p | None \<Rightarrow> raw) else raw)"

section \<open>Strings\<close>

text \<open>
  A JavaScript string is a sequence of UTF-16 code units. The texts the functions below
  scan are lists of \<open>char\<close>, one \<open>char\<close> for one code unit below 256; the strings
  \<open>JSON.parse\<close> produces are lists of code units as numbers, since an escape
  \<open>\uXXXX\<close> can name any 16-bit unit.
\<close>

abbreviation dquote :: char where "dquote \<equiv> CHR 0x22"
abbreviation squote :: char where "squote \<equiv> CHR 0x27"
abbreviation bslash :: char where "bslash \<equiv> CHR 0x5C"

definition units :: "string \<Rightarrow> nat list" where
  "units s = map of_char s"

text \<open>The four characters the scanners of json-repair.mjs skip as whitespace.\<close>

definition is_ws :: "char \<Rightarrow> bool" where
  "is_ws c = (c = CHR '' '' \<or> c = CHR 0x09 \<or> c = CHR 0x0A \<or> c = CHR 0x0D)"

text \<open>\<open>String.prototype.trim\<close>: white space and line terminators, here those below 256.\<close>

definition is_js_space :: "char \<Rightarrow> bool" where
  "is_js_space c =
     (c = CHR 0x09 \<or> c = CHR 0x0A \<or> c = CHR 0x0B \<or> c = CHR 0x0C \<or> c = CHR 0x0D
      \<or> c = CHR 0x20 \<or> c = CHR 0xA0)"

definition js_trim :: "string \<Rightarrow> string" where
  "js_trim s = rev (dropWhile is_js_space (rev (dropWhile is_js_space s)))"

definition slice :: "string \<Rightarrow> nat \<Rightarrow> nat \<Rightarrow> string" where
  "slice s start end = drop start (take end s)"

text \<open>\<open>s.replace(/<\/s>/g, "")\<close>: every occurrence, found from left to right, is dropped.\<close>

fun remove_eos :: "string \<Rightarrow> string" where
  "remove_eos [] = []"
| "remove_eos (c # cs) =
     (if prefix ''</s>'' (c # cs) then remove_eos (drop 3 cs) else c # remove_eos cs)"

text \<open>
  \<open>s.replace(/[\x00-\x08\x0b\x0c\x0e-\x1f]+$/g, "")\<close>: the run of these control characters
  at the end of the string is dropped.
\<close>

definition is_tail_ctl :: "char \<Rightarrow> bool" where
  "is_tail_ctl c =
     (let n = (of_char c :: nat) in n \<le> 8 \<or> n = 11 \<or> n = 12 \<or> (14 \<le> n \<and> n \<le> 31))"

definition strip_ctl_tail :: "string \<Rightarrow> string" where
  "strip_ctl_tail s = rev (dropWhile is_tail_ctl (rev s))"

section \<open>JSON.parse\<close>

text \<open>
  \<open>JSON.parse\<close> is the engine's, not this repository's; it is modelled after the JSON
  grammar of ECMA-262: a lexer, then a parser with an explicit stack of open containers.
  A number keeps its literal text (its value is a floating-point number). An object is the
  list of its members in the order of the text; reading a property takes the last member
  of that name. \<open>None\<close> is the \<open>SyntaxError\<close>.
\<close>

datatype json =
    JNull
  | JBool bool
  | JNum string
  | JStr "nat list"
  | JArr "json list"
  | JObj "(nat list \<times> json) list"

definition json_get :: "json \<Rightarrow> nat list \<Rightarrow> json option" where
  "json_get v key = (case v of JObj members \<Rightarrow> map_of (rev members) key | _ \<Rightarrow> None)"

datatype token =
    TLBrace | TRBrace | TLBrack | TRBrack | TColon | TComma
  | TString "nat list" | TNumber string | TTrue | TFalse | TNull

definition is_digit :: "char \<Rightarrow> bool" where
  "is_digit c = (CHR ''0'' \<le> c \<and> c \<le> CHR ''9'')"

definition hex_val :: "char \<Rightarrow> nat option" where
  "hex_val c =
     (if CHR ''0'' \<le> c \<and> c \<le> CHR ''9'' then Some (of_char c - 48)
      else if CHR ''a'' \<le> c \<and> c \<le> CHR ''f'' then Some (of_char c - 87)
      else if CHR ''A'' \<le> c \<and> c \<le> CHR ''F'' then Some (of_char c - 55)
      else None)"

definition escape_unit :: "char \<Rightarrow> nat option" where
  "escape_unit e =
     (if e = dquote then Some 34 else if e = bslash then Some 92
      else if e = CHR ''/'' then Some 47 else if e = CHR ''b'' then Some 8
      else if e = CHR ''f'' then Some 12 else if e = CHR ''n'' then Some 10
      else if e = CHR ''r'' then Some 13 else if e = CHR ''t'' then Some 9
      else None)"

text \<open>The characters of a string literal after its opening quote, and the text after it.\<close>

fun lex_string :: "string \<Rightarrow> (nat list \<times> string) option" where
  "lex_string [] = None"
| "lex_string (c # cs) =
     (if c = dquote then Some ([], cs)
      else if c = bslash then
        (case cs of
           [] \<Rightarrow> None
         | e # cs' \<Rightarrow>
             if e = CHR ''u'' then
               (case cs' of
                  h1 # h2 # h3 # h4 # cs'' \<Rightarrow>
                    (case (hex_val h1, hex_val h2, hex_val h3, hex_val h4) of
                       (Some a, Some b, Some c, Some d) \<Rightarrow>
                         map_option (\<lambda>(us, r). ((((a * 16 + b) * 16 + c) * 16 + d) # us, r))
                           (lex_string cs'')
                     | _ \<Rightarrow> None)
                | _ \<Rightarrow> None)
             else
               (case escape_unit e of
                  None \<Rightarrow> None
                | Some u \<Rightarrow> map_option (\<lambda>(us, r). (u # us, r)) (lex_string cs')))
      else if (of_char c :: nat) < 32 then None
      else map_option (\<lambda>(us, r). (of_char c # us, r)) (lex_string cs))"

text \<open>
  A number literal at the head of the text:
  \<open>-? (0 | [1-9][0-9]*) (. [0-9]+)? ([eE] [+-]? [0-9]+)?\<close>.
\<close>

definition lex_int :: "string \<Rightarrow> (string \<times> string) option" where
  "lex_int s =
     (case s of
        [] \<Rightarrow> None
      | c # cs \<Rightarrow>
          if c = CHR ''0'' then Some ([c], cs)
          else if is_digit c then Some (takeWhile is_digit s, dropWhile is_digit s)
          else None)"

definition lex_frac :: "string \<Rightarrow> (string \<times> string) option" where
  "lex_frac s =
     (case s of
        c # cs \<Rightarrow>
          if c = CHR ''.'' then
            (if takeWhile is_digit cs = [] then None
             else Some (c # takeWhile is_digit cs, dropWhile is_digit cs))
          else Some ([], s)
      | [] \<Rightarrow> Some ([], s))"

definition lex_exp :: "string \<Rightarrow> (string \<times> string) option" where
  "lex_exp s =
     (case s of
        c # cs \<Rightarrow>
          if c = CHR ''e'' \<or> c = CHR ''E'' then
            (let sign = (case cs of d # _ \<Rightarrow> if d = CHR ''+'' \<or> d = CHR ''-'' then [d] else []
                                   | [] \<Rightarrow> []);
                 ds = drop (length sign) cs
             in if takeWhile is_digit ds = [] then None
                else Some (c # sign @ takeWhile is_digit ds, dropWhile is_digit ds))
          else Some ([], s)
      | [] \<Rightarrow> Some ([], s))"

definition lex_number :: "string \<Rightarrow> (string \<times> string) option" where
  "lex_number s =
     (let sign = (case s of c # _ \<Rightarrow> if c = CHR ''-'' then [c] else [] | [] \<Rightarrow> [])
      in case lex_int (drop (length sign) s) of
           None \<Rightarrow> None
         | Some (ip, r1) \<Rightarrow>
             (case lex_frac r1 of
                None \<Rightarrow> None
              | Some (fp, r2) \<Rightarrow>
                  (case lex_exp r2 of
                     None \<Rightarrow> None
                   | Some (ep, r3) \<Rightarrow> Some (sign @ ip @ fp @ ep, r3))))"

text \<open>Every lexer step consumes text: the facts behind the termination of \<open>lex\<close>.\<close>

lemma lex_string_length: "lex_string s = Some (us, r) \<Longrightarrow> length r < length s"
proof (induction s arbitrary: us r rule: lex_string.induct)
  case 1
  then show ?case by simp
next
  case (2 c cs)
  show ?case
    using "2.prems" "2.IH"
    by (fastforce split: if_splits list.splits option.splits prod.splits)
qed

lemma lex_int_length: "lex_int s = Some (l, r) \<Longrightarrow> length r < length s"
proof -
  have "length (dropWhile is_digit (c # cs)) < length (c # cs)" if "is_digit c" for c cs
    using that length_dropWhile_le [of is_digit cs] by simp
  then show "lex_int s = Some (l, r) \<Longrightarrow> length r < length s"
    unfolding lex_int_def by (auto split: list.splits if_splits)
qed

lemma lex_frac_length: "lex_frac s = Some (l, r) \<Longrightarrow> length r \<le> length s"
  unfolding lex_frac_def
  by (auto split: list.splits if_splits intro: le_SucI length_dropWhile_le)

lemma lex_exp_length: "lex_exp s = Some (l, r) \<Longrightarrow> length r \<le> length s"
proof -
  have a: "length (dropWhile is_digit (drop k cs)) \<le> Suc (length cs)" for k cs
    using length_dropWhile_le [of is_digit "drop k cs"] by simp
  show "lex_exp s = Some (l, r) \<Longrightarrow> length r \<le> length s"
    unfolding lex_exp_def Let_def
    using a [of 0] a [of 1]
    by (auto split: list.splits if_splits intro: le_SucI)
qed

lemma lex_number_length: "lex_number (c # cs) = Some (l, r) \<Longrightarrow> length r \<le> length cs"
proof -
  assume a: "lex_number (c # cs) = Some (l, r)"
  define sign where "sign = (if c = CHR ''-'' then [c] else [])"
  from a obtain ip r1 fp r2 ep where
    1: "lex_int (drop (length sign) (c # cs)) = Some (ip, r1)" and
    2: "lex_frac r1 = Some (fp, r2)" and 3: "lex_exp r2 = Some (ep, r)"
    unfolding lex_number_def Let_def sign_def
    by (auto split: option.splits prod.splits)
  have "length r1 < length (drop (length sign) (c # cs))" using lex_int_length [OF 1] .
  then have "length r1 \<le> length cs" by (simp add: sign_def split: if_splits)
  then show ?thesis using lex_frac_length [OF 2] lex_exp_length [OF 3] by simp
qed

text \<open>The tokens of a text; \<open>None\<close> when some character starts no token.\<close>

function lex :: "string \<Rightarrow> token list option" where
  "lex [] = Some []"
| "lex (c # cs) =
     (if c = CHR '' '' \<or> c = CHR 0x09 \<or> c = CHR 0x0A \<or> c = CHR 0x0D then lex cs
      else if c = CHR ''{'' then map_option (Cons TLBrace) (lex cs)
      else if c = CHR ''}'' then map_option (Cons TRBrace) (lex cs)
      else if c = CHR ''['' then map_option (Cons TLBrack) (lex cs)
      else if c = CHR '']'' then map_option (Cons TRBrack) (lex cs)
      else if c = CHR '':'' then map_option (Cons TColon) (lex cs)
      else if c = CHR '','' then map_option (Cons TComma) (lex cs)
      else if c = dquote then
        (case lex_string cs of
           None \<Rightarrow> None
         | Some (us, r) \<Rightarrow> map_option (Cons (TString us)) (lex r))
      else if prefix ''true'' (c # cs) then map_option (Cons TTrue) (lex (drop 3 cs))
      else if prefix ''false'' (c # cs) then map_option (Cons TFalse) (lex (drop 4 cs))
      else if prefix ''null'' (c # cs) then map_option (Cons TNull) (lex (drop 3 cs))
      else if c = CHR ''-'' \<or> is_digit c then
        (case lex_number (c # cs) of
           None \<Rightarrow> None
         | Some (l, r) \<Rightarrow> map_option (Cons (TNumber l)) (lex r))
      else None)"
  by pat_completeness auto
termination
proof (relation "measure length", goal_cases)
  case 1
  then show ?case by simp
next
  case (2 c cs)
  then show ?case by simp
next
  case (3 c cs)
  then show ?case by simp
next
  case (4 c cs)
  then show ?case by simp
next
  case (5 c cs)
  then show ?case by simp
next
  case (6 c cs)
  then show ?case by simp
next
  case (7 c cs)
  then show ?case by simp
next
  case (8 c cs)
  then show ?case by simp
next
  case (9 c cs x2 us r)
  then show ?case using lex_string_length [of cs us r] by simp
next
  case (10 c cs)
  then show ?case by simp
next
  case (11 c cs)
  then show ?case by simp
next
  case (12 c cs)
  then show ?case by simp
next
  case (13 c cs x2 l r)
  then show ?case using lex_number_length [of c cs l r] by simp
qed

text \<open>
  The parser reads the tokens one at a time. The stack holds the containers that are open:
  an array with its items so far, an object with its members so far, or an object that has
  read a key and its colon and waits for the value. The mode says what may come next.
\<close>

datatype frame =
    FArr "json list"
  | FObj "(nat list \<times> json) list"
  | FKey "(nat list \<times> json) list" "nat list"

datatype mode = WantValue | WantValueOrClose | WantKeyOrClose | WantKey | WantColon "nat list"
  | AfterValue | Done json

fun complete :: "json \<Rightarrow> frame list \<Rightarrow> (frame list \<times> mode) option" where
  "complete v [] = Some ([], Done v)"
| "complete v (FArr items # st) = Some (FArr (items @ [v]) # st, AfterValue)"
| "complete v (FKey members k # st) = Some (FObj (members @ [(k, v)]) # st, AfterValue)"
| "complete v (FObj members # st) = None"

fun scalar :: "token \<Rightarrow> json option" where
  "scalar (TString us) = Some (JStr us)"
| "scalar (TNumber l) = Some (JNum l)"
| "scalar TTrue = Some (JBool True)"
| "scalar TFalse = Some (JBool False)"
| "scalar TNull = Some JNull"
| "scalar _ = None"

fun parse_value_token :: "token \<Rightarrow> frame list \<Rightarrow> (frame list \<times> mode) option" where
  "parse_value_token TLBrack st = Some (FArr [] # st, WantValueOrClose)"
| "parse_value_token TLBrace st = Some (FObj [] # st, WantKeyOrClose)"
| "parse_value_token t st = (case scalar t of Some v \<Rightarrow> complete v st | None \<Rightarrow> None)"

definition close_array :: "frame list \<Rightarrow> (frame list \<times> mode) option" where
  "close_array st = (case st of FArr items # st' \<Rightarrow> complete (JArr items) st' | _ \<Rightarrow> None)"

definition close_object :: "frame list \<Rightarrow> (frame list \<times> mode) option" where
  "close_object st = (case st of FObj members # st' \<Rightarrow> complete (JObj members) st' | _ \<Rightarrow> None)"

fun parse_step :: "token \<Rightarrow> frame list \<Rightarrow> mode \<Rightarrow> (frame list \<times> mode) option" where
  "parse_step t st WantValue = parse_value_token t st"
| "parse_step t st WantValueOrClose =
     (if t = TRBrack then close_array st else parse_value_token t st)"
| "parse_step t st WantKeyOrClose =
     (if t = TRBrace then close_object st
      else (case t of TString k \<Rightarrow> Some (st, WantColon k) | _ \<Rightarrow> None))"
| "parse_step t st WantKey =
     (case t of TString k \<Rightarrow> Some (st, WantColon k) | _ \<Rightarrow> None)"
| "parse_step t st (WantColon k) =
     (if t = TColon
      then (case st of FObj members # st' \<Rightarrow> Some (FKey members k # st', WantValue) | _ \<Rightarrow> None)
      else None)"
| "parse_step t st AfterValue =
     (if t = TComma
      then (case st of
              FArr items # st' \<Rightarrow> Some (st, WantValue)
            | FObj members # st' \<Rightarrow> Some (st, WantKey)
            | _ \<Rightarrow> None)
      else if t = TRBrack then close_array st
      else if t = TRBrace then close_object st
      else None)"
| "parse_step t st (Done v) = None"

fun parse_tokens :: "token list \<Rightarrow> frame list \<Rightarrow> mode \<Rightarrow> json option" where
  "parse_tokens [] st m = (case m of Done v \<Rightarrow> Some v | _ \<Rightarrow> None)"
| "parse_tokens (t # ts) st m =
     (case parse_step t st m of None \<Rightarrow> None | Some (st', m') \<Rightarrow> parse_tokens ts st' m')"

definition JSON_parse :: "string \<Rightarrow> json option" where
  "JSON_parse text = (case lex text of None \<Rightarrow> None | Some ts \<Rightarrow> parse_tokens ts [] WantValue)"

section \<open>Tool-call extractor (json-repair.mjs)\<close>

text \<open>
  Every scanner of the module walks the text once with the same state: whether it is
  inside a string (\<open>inString\<close>), the quote that opened it (\<open>quote\<close>, \<open>None\<close> for the empty
  string) and whether the previous character was a backslash inside a string
  (\<open>escaped\<close>). Where the source appends to \<open>result\<close>, the model puts the character in
  front of the result of the rest.

  \<open>extractJsonLikeArgs(text, fromIdx)\<close>: the first loop finds the first \<open>{\<close> or \<open>[\<close> at
  or after \<open>fromIdx\<close>; the second returns the index at which the depth comes back to 0.
\<close>

primrec find_open :: "string \<Rightarrow> nat \<Rightarrow> nat option" where
  "find_open [] i = None"
| "find_open (c # cs) i =
     (if c = CHR ''{'' \<or> c = CHR ''['' then Some i else find_open cs (i + 1))"

primrec scan_close :: "string \<Rightarrow> nat \<Rightarrow> int \<Rightarrow> bool \<Rightarrow> char option \<Rightarrow> bool \<Rightarrow> nat option" where
  "scan_close [] i depth inString quote escaped = None"
| "scan_close (ch # cs) i depth inString quote escaped =
     (if escaped then scan_close cs (i + 1) depth inString quote False
      else if ch = bslash then scan_close cs (i + 1) depth inString quote inString
      else if inString then
        (if quote = Some ch then scan_close cs (i + 1) depth False None False
         else scan_close cs (i + 1) depth inString quote False)
      else if ch = dquote \<or> ch = squote then scan_close cs (i + 1) depth True (Some ch) False
      else if ch = CHR ''{'' \<or> ch = CHR ''['' then
        scan_close cs (i + 1) (depth + 1) inString quote False
      else if ch = CHR ''}'' \<or> ch = CHR '']'' then
        (if depth - 1 = 0 then Some i
         else scan_close cs (i + 1) (depth - 1) inString quote False)
      else scan_close cs (i + 1) depth inString quote False)"

definition extractJsonLikeArgs :: "string \<Rightarrow> nat \<Rightarrow> (string \<times> bool) option" where
  "extractJsonLikeArgs text fromIdx =
     (case find_open (drop fromIdx text) fromIdx of
        None \<Rightarrow> None
      | Some start \<Rightarrow>
          (case scan_close (drop start text) start 0 False None False of
             Some i \<Rightarrow> Some (slice text start (i + 1), False)
           | None \<Rightarrow> Some (drop start text, True)))"

text \<open>
  \<open>removeTrailingCommas(s)\<close>: outside strings, a comma whose next character after
  whitespace is \<open>}\<close> or \<open>]\<close> is not copied.
\<close>

primrec removeTrailingCommas_loop :: "string \<Rightarrow> bool \<Rightarrow> char option \<Rightarrow> bool \<Rightarrow> string" where
  "removeTrailingCommas_loop [] inString quote escaped = []"
| "removeTrailingCommas_loop (ch # cs) inString quote escaped =
     (if escaped then ch # removeTrailingCommas_loop cs inString quote False
      else if ch = bslash then ch # removeTrailingCommas_loop cs inString quote inString
      else if inString then
        ch # removeTrailingCommas_loop cs (quote \<noteq> Some ch) quote False
      else if ch = dquote \<or> ch = squote then
        ch # removeTrailingCommas_loop cs True (Some ch) False
      else if ch = CHR '','' \<and>
              (case dropWhile is_ws cs of c # _ \<Rightarrow> c = CHR ''}'' \<or> c = CHR '']'' | [] \<Rightarrow> False)
        then removeTrailingCommas_loop cs inString quote False
      else ch # removeTrailingCommas_loop cs inString quote False)"

definition removeTrailingCommas :: "string \<Rightarrow> string" where
  "removeTrailingCommas s = removeTrailingCommas_loop s False None False"

text \<open>
  \<open>fixKeyQuotes(s)\<close>. The inner loop looks, from the first character of a candidate key,
  for the end of the key: a colon, or a double quote followed (after whitespace) by a
  colon; any other double quote stops the search without a key.
\<close>

primrec find_key_end :: "string \<Rightarrow> nat \<Rightarrow> (nat \<times> bool) option" where
  "find_key_end [] j = None"
| "find_key_end (c # cs) j =
     (if c = CHR '':'' then Some (j, False)
      else if c = dquote \<and> (case cs of d # _ \<Rightarrow> d = CHR '':'' | [] \<Rightarrow> False) then Some (j, True)
      else if c = dquote then
        (case dropWhile is_ws cs of
           d # _ \<Rightarrow> if d = CHR '':'' then Some (j, True) else None
         | [] \<Rightarrow> None)
      else find_key_end cs (j + 1))"

definition is_structural :: "char \<Rightarrow> bool" where
  "is_structural ch =
     (ch = CHR ''{'' \<or> ch = CHR ''}'' \<or> ch = CHR ''['' \<or> ch = CHR '']'' \<or> ch = CHR '':''
      \<or> ch = CHR '','')"

lemma find_key_end_ge: "find_key_end s j = Some (k, b) \<Longrightarrow> j \<le> k"
proof (induction s arbitrary: j)
  case Nil
  then show ?case by simp
next
  case (Cons c cs)
  show ?case
  proof (cases "c = CHR '':'' \<or> c = dquote")
    case True
    then have "k = j" using Cons.prems by (simp split: if_splits list.splits)
    then show ?thesis by simp
  next
    case False
    then have "find_key_end cs (j + 1) = Some (k, b)" using Cons.prems by simp
    from Cons.IH [OF this] show ?thesis by simp
  qed
qed

lemma find_key_end_gt:
  assumes "find_key_end (c # cs) j = Some (k, b)" and "c \<noteq> CHR '':''" and "c \<noteq> dquote"
  shows "j < k"
proof -
  have "find_key_end cs (j + 1) = Some (k, b)" using assms by simp
  from find_key_end_ge [OF this] show ?thesis by simp
qed

text \<open>
  The outer loop. A character outside strings that is no quote, no whitespace and no
  structural character starts a key when the last significant character was \<open>{\<close> or a
  comma and the inner loop finds the end of the key; the trimmed key is then written
  between double quotes and the scan goes on behind it.
\<close>

function fixKeyQuotes_loop ::
  "string \<Rightarrow> bool \<Rightarrow> char option \<Rightarrow> bool \<Rightarrow> char option \<Rightarrow> string" where
  "fixKeyQuotes_loop [] inString quote escaped lastSignificant = []"
| "fixKeyQuotes_loop (ch # cs) inString quote escaped lastSignificant =
     (if escaped then ch # fixKeyQuotes_loop cs inString quote False lastSignificant
      else if ch = bslash then ch # fixKeyQuotes_loop cs inString quote inString lastSignificant
      else if inString then
        ch # fixKeyQuotes_loop cs (quote \<noteq> Some ch) quote False lastSignificant
      else if ch = dquote \<or> ch = squote then
        ch # fixKeyQuotes_loop cs True (Some ch) False (Some ch)
      else if is_ws ch then ch # fixKeyQuotes_loop cs inString quote False lastSignificant
      else if is_structural ch then ch # fixKeyQuotes_loop cs inString quote False (Some ch)
      else
        (case (if lastSignificant = Some (CHR ''{'') \<or> lastSignificant = Some (CHR '','')
               then find_key_end (ch # cs) 0 else None) of
           Some (keyEnd, hasTrailingQuote) \<Rightarrow>
             [dquote] @ js_trim (slice (ch # cs) 0 keyEnd) @ [dquote]
             @ fixKeyQuotes_loop (drop (if hasTrailingQuote then keyEnd + 1 else keyEnd) (ch # cs))
                 inString quote False (Some dquote)
         | None \<Rightarrow> ch # fixKeyQuotes_loop cs inString quote False (Some ch)))"
  by pat_completeness auto
termination
proof (relation "measure (\<lambda>(s, i, q, e, l). length s)", goal_cases)
  case 1
  show ?case by simp
next
  case 2
  show ?case by simp
next
  case 3
  show ?case by simp
next
  case 4
  show ?case by simp
next
  case 5
  show ?case by simp
next
  case 6
  show ?case by simp
next
  case 7
  show ?case by simp
next
  case (8 ch cs inString quote escaped lastSignificant)
  show ?case by simp
next
  case (9 ch cs inString quote escaped lastSignificant x2 keyEnd hasTrailingQuote)
  then have k: "find_key_end (ch # cs) 0 = Some (keyEnd, hasTrailingQuote)"
    by (simp split: if_splits)
  have "ch \<noteq> CHR '':''" using 9(6) by (simp add: is_structural_def)
  moreover have "ch \<noteq> dquote" using 9(4) by simp
  ultimately have "0 < keyEnd" using find_key_end_gt [OF k] by simp
  then show ?case by (cases keyEnd) simp_all
qed

definition fixKeyQuotes :: "string \<Rightarrow> string" where
  "fixKeyQuotes s = fixKeyQuotes_loop s False None False None"

text \<open>
  \<open>singleToDoubleQuotes(s)\<close>: single quotes that delimit a string become double quotes, and
  a double quote inside such a string gets a backslash.
\<close>

primrec singleToDoubleQuotes_loop :: "string \<Rightarrow> bool \<Rightarrow> char option \<Rightarrow> bool \<Rightarrow> string" where
  "singleToDoubleQuotes_loop [] inString quote escaped = []"
| "singleToDoubleQuotes_loop (ch # cs) inString quote escaped =
     (if escaped then ch # singleToDoubleQuotes_loop cs inString quote False
      else if ch = bslash then ch # singleToDoubleQuotes_loop cs inString quote inString
      else if inString then
        (if quote = Some ch then
           (if quote = Some squote then dquote else ch)
             # singleToDoubleQuotes_loop cs False quote False
         else if ch = dquote \<and> quote = Some squote then
           bslash # dquote # singleToDoubleQuotes_loop cs inString quote False
         else ch # singleToDoubleQuotes_loop cs inString quote False)
      else if ch = squote then dquote # singleToDoubleQuotes_loop cs True (Some ch) False
      else if ch = dquote then ch # singleToDoubleQuotes_loop cs True (Some ch) False
      else ch # singleToDoubleQuotes_loop cs inString quote False)"

definition singleToDoubleQuotes :: "string \<Rightarrow> string" where
  "singleToDoubleQuotes s = singleToDoubleQuotes_loop s False None False"

text \<open>
  \<open>closeUnclosedBrackets(s)\<close>: the stack holds the closers of the open brackets, the last
  opened first; \<open>pop\<close> on the empty stack does nothing. The suffix is the open quote, if
  the text ends inside a string, then the stack from its top.
\<close>

primrec closeUnclosedBrackets_loop ::
  "string \<Rightarrow> string \<Rightarrow> bool \<Rightarrow> char option \<Rightarrow> bool \<Rightarrow> string" where
  "closeUnclosedBrackets_loop [] stack inString quote escaped =
     (if inString then (case quote of Some q \<Rightarrow> [q] | None \<Rightarrow> []) else []) @ stack"
| "closeUnclosedBrackets_loop (ch # cs) stack inString quote escaped =
     (if escaped then closeUnclosedBrackets_loop cs stack inString quote False
      else if ch = bslash then closeUnclosedBrackets_loop cs stack inString quote inString
      else if inString then
        closeUnclosedBrackets_loop cs stack (quote \<noteq> Some ch) quote False
      else if ch = dquote \<or> ch = squote then
        closeUnclosedBrackets_loop cs stack True (Some ch) False
      else if ch = CHR ''{'' then closeUnclosedBrackets_loop cs (CHR ''}'' # stack) inString quote False
      else if ch = CHR ''['' then closeUnclosedBrackets_loop cs (CHR '']'' # stack) inString quote False
      else if ch = CHR ''}'' \<or> ch = CHR '']'' then
        closeUnclosedBrackets_loop cs (tl stack) inString quote False
      else closeUnclosedBrackets_loop cs stack inString quote False)"

definition closeUnclosedBrackets :: "string \<Rightarrow> string" where
  "closeUnclosedBrackets s = s @ closeUnclosedBrackets_loop s [] False None False"

text \<open>
  \<open>repairJson(jsonLike)\<close>: six attempts, each a \<open>JSON.parse\<close> inside \<open>try\<close>. The result is
  the value with the name of the step, or the failure (whose message, the engine's, is not
  modelled).
\<close>

datatype repair_result = Repaired json string | Unrepaired

definition strip_tail :: "string \<Rightarrow> string" where
  "strip_tail jsonLike = js_trim (strip_ctl_tail (remove_eos jsonLike))"

definition repairJson :: "string \<Rightarrow> repair_result" where
  "repairJson jsonLike =
     (case JSON_parse jsonLike of
        Some v \<Rightarrow> Repaired v ''raw''
      | None \<Rightarrow>
          (let s = strip_tail jsonLike in
           case JSON_parse s of
             Some v \<Rightarrow> Repaired v ''strip_tail''
           | None \<Rightarrow>
               (let s3 = removeTrailingCommas s in
                case JSON_parse s3 of
                  Some v \<Rightarrow> Repaired v ''trailing_commas''
                | None \<Rightarrow>
                    (let s4 = fixKeyQuotes s3 in
                     case JSON_parse s4 of
                       Some v \<Rightarrow> Repaired v ''fix_key_quotes''
                     | None \<Rightarrow>
                         (let s5 = singleToDoubleQuotes s4 in
                          case JSON_parse s5 of
                            Some v \<Rightarrow> Repaired v ''single_to_double_quotes''
                          | None \<Rightarrow>
                              (let s6 = closeUnclosedBrackets s5 in
                               case JSON_parse s6 of
                                 Some v \<Rightarrow> Repaired v ''close_brackets''
                               | None \<Rightarrow> Unrepaired))))))"

text \<open>
  \<open>parseToolCallRobust(text)\<close>: the regular expression \<open>\[TOOL_CALLS\](\w+)\[ARGS\]\<close> is
  matched at the leftmost position where it matches; \<open>find_marker\<close> returns that index,
  the name and the length of the match.
\<close>

definition is_word :: "char \<Rightarrow> bool" where
  "is_word c =
     ((CHR ''a'' \<le> c \<and> c \<le> CHR ''z'') \<or> (CHR ''A'' \<le> c \<and> c \<le> CHR ''Z'')
      \<or> (CHR ''0'' \<le> c \<and> c \<le> CHR ''9'') \<or> c = CHR ''_'')"

definition match_marker :: "string \<Rightarrow> (string \<times> nat) option" where
  "match_marker s =
     (if prefix ''[TOOL_CALLS]'' s then
        (let name = takeWhile is_word (drop 12 s) in
         if name \<noteq> [] \<and> prefix ''[ARGS]'' (dropWhile is_word (drop 12 s))
         then Some (name, 12 + length name + 6) else None)
      else None)"

primrec find_marker :: "string \<Rightarrow> nat \<Rightarrow> (nat \<times> string \<times> nat) option" where
  "find_marker [] i = None"
| "find_marker (c # cs) i =
     (case match_marker (c # cs) of
        Some (name, len) \<Rightarrow> Some (i, name, len)
      | None \<Rightarrow> find_marker cs (i + 1))"

definition parseToolCallRobust :: "string \<Rightarrow> (string \<times> string \<times> json) option" where
  "parseToolCallRobust text0 =
     (let text = remove_eos text0 in
      case find_marker text 0 of
        None \<Rightarrow> None
      | Some (index, name, len) \<Rightarrow>
          (case extractJsonLikeArgs text (index + len) of
             None \<Rightarrow> None
           | Some (jsonLike, unterminated) \<Rightarrow>
               (case repairJson jsonLike of
                  Unrepaired \<Rightarrow> None
                | Repaired v step \<Rightarrow> Some (js_trim (slice text 0 index), name, v))))"

text \<open>
  The repair ladder as the specification words it: the candidate texts in their fixed
  order, each with the name of its step, and the first of them that parses.
\<close>

definition repair_ladder :: "string \<Rightarrow> (string \<times> string) list" where
  "repair_ladder jsonLike =
     (let s = strip_tail jsonLike;
          s3 = removeTrailingCommas s;
          s4 = fixKeyQuotes s3;
          s5 = singleToDoubleQuotes s4;
          s6 = closeUnclosedBrackets s5
      in [(''raw'', jsonLike), (''strip_tail'', s), (''trailing_commas'', s3),
          (''fix_key_quotes'', s4), (''single_to_double_quotes'', s5), (''close_brackets'', s6)])"

primrec first_parse :: "(string \<times> string) list \<Rightarrow> repair_result" where
  "first_parse [] = Unrepaired"
| "first_parse (p # rest) =
     (case JSON_parse (snd p) of Some v \<Rightarrow> Repaired v (fst p) | None \<Rightarrow> first_parse rest)"

section \<open>Search orchestrator (core.mjs)\<close>

text \<open>
  A message of the conversation log, with the role as the number the code writes (5 system,
  1 user, 2 assistant, 4 tool result).
\<close>

record message =
  role :: nat
  content :: string
  tool_call_id :: "string option"
  tool_name :: "string option"
  tool_args_json :: "string option"
  ref_call_id :: "string option"

definition plain_message :: "nat \<Rightarrow> string \<Rightarrow> message" where
  "plain_message r c =
     \<lparr>role = r, content = c, tool_call_id = None, tool_name = None, tool_args_json = None,
      ref_call_id = None\<rparr>"

definition FINAL_FORCE_ANSWER :: string where
  "FINAL_FORCE_ANSWER =
     ''You have no turns left. Now you MUST provide your final ANSWER, even if it'' @ [squote]
     @ ''s not complete.''"

text \<open>
  \<open>checkRateLimit\<close>. What \<open>_unaryRequest\<close> does is the environment's: it returns the body,
  throws an error that carries the HTTP status, or throws another error (the fetch failed
  twice).
\<close>

datatype unary_outcome = UnaryOk buffer | HttpError nat | TransportError string

definition checkRateLimit :: "unary_outcome \<Rightarrow> bool" where
  "checkRateLimit outcome =
     (case outcome of
        UnaryOk resp \<Rightarrow> True
      | HttpError status \<Rightarrow> (if status = 429 then False else True)
      | TransportError msg \<Rightarrow> True)"

text \<open>
  One turn's exchange with the remote model, \<open>_streamingRequest\<close> followed by
  \<open>_parseResponse\<close>: the request throws, or the response is a text with or without a tool
  call (name and parsed arguments).
\<close>

datatype reply = RequestFailed string | Response string "(string \<times> json) option"

type_synonym file_entry = "string \<times> string \<times> (nat \<times> nat) list"

record search_result =
  files :: "file_entry list"
  error :: "string option"
  raw_response :: "string option"
  rg_patterns :: "string list option"
  meta :: "(int \<times> bool) option"

text \<open>
  The state of one call of \<open>search\<close>: the conversation log, the patterns the executor has
  collected, and the trace of what the call did to the outside, a request to the remote
  model (with the log it carried) or an execution of commands.
\<close>

datatype event = Requested nat "message list" | Executed nat json

record session =
  messages :: "message list"
  collectedRgPatterns :: "string list"
  trace :: "event list"

text \<open>
  What \<open>search\<close> calls and this model does not look into: credential discovery, the
  token exchange, the rate-limit probe, the remote model (one reply per turn; any adaptive
  behaviour is some such sequence), \<open>randomUUID\<close>, \<open>JSON.stringify\<close>, the tool executor
  (the result text and the patterns it collects), \<open>_parseAnswer\<close> applied to the
  \<open>answer\<close> property, the system prompt, the text of the user message after the query
  (repo map and hints), and the tree depth and fallback flag of \<open>_meta\<close> (the size in KB, a
  floating-point number, is left out).
\<close>

record env =
  getApiKey :: "string option"
  fetchJwt :: "string \<Rightarrow> string option"
  rateLimitProbe :: "string \<Rightarrow> string \<Rightarrow> unary_outcome"
  remote :: "nat \<Rightarrow> reply"
  randomUUID :: "nat \<Rightarrow> string"
  stringify :: "json \<Rightarrow> string"
  execToolCall :: "json \<Rightarrow> string \<times> string list"
  parseAnswer :: "json option \<Rightarrow> file_entry list"
  systemPrompt :: string
  repoMap :: string
  treeMeta :: "int \<times> bool"

definition dedupe :: "string list \<Rightarrow> string list" where
  "dedupe xs = rev (remdups (rev xs))"

definition failure_result :: "string \<Rightarrow> search_result" where
  "failure_result msg =
     \<lparr>files = [], error = Some msg, raw_response = None, rg_patterns = None, meta = None\<rparr>"

text \<open>
  The loop \<open>for (turn = 0; turn < maxTurns + 1; turn++)\<close> of \<open>search\<close>, with the log and
  the executor's patterns in the session. \<open>maxTurns\<close> is an integer.
\<close>

function search_loop :: "env \<Rightarrow> int \<Rightarrow> nat \<Rightarrow> session \<Rightarrow> search_result \<times> session" where
  "search_loop e maxTurns turn st =
     (if int turn < maxTurns + 1 then
        (let st1 = st\<lparr>trace := trace st @ [Requested turn (messages st)]\<rparr> in
         case remote e turn of
           RequestFailed msg \<Rightarrow> (failure_result (''Request failed: '' @ msg), st1)
         | Response thinking toolInfo \<Rightarrow>
             (case toolInfo of
                None \<Rightarrow>
                  (if prefix ''[Error]'' thinking then (failure_result thinking, st1)
                   else (\<lparr>files = [], error = None, raw_response = Some thinking,
                           rg_patterns = None, meta = None\<rparr>, st1))
              | Some (toolName, toolArgs) \<Rightarrow>
                  if toolName = ''answer'' then
                    (\<lparr>files = parseAnswer e (json_get toolArgs (units ''answer'')),
                      error = None, raw_response = None,
                      rg_patterns = Some (dedupe (collectedRgPatterns st1)),
                      meta = Some (treeMeta e)\<rparr>, st1)
                  else if toolName = ''restricted_exec'' then
                    (let callId = randomUUID e turn;
                         argsJson = stringify e toolArgs;
                         results = fst (execToolCall e toolArgs);
                         msgs = messages st1
                           @ [\<lparr>role = 2, content = thinking, tool_call_id = Some callId,
                                tool_name = Some ''restricted_exec'',
                                tool_args_json = Some argsJson, ref_call_id = None\<rparr>,
                              \<lparr>role = 4, content = results, tool_call_id = None,
                                tool_name = None, tool_args_json = None,
                                ref_call_id = Some callId\<rparr>];
                         msgs' = (if int turn \<ge> maxTurns - 1
                                  then msgs @ [plain_message 1 FINAL_FORCE_ANSWER] else msgs)
                     in search_loop e maxTurns (turn + 1)
                          (st1\<lparr>messages := msgs',
                               collectedRgPatterns :=
                                 collectedRgPatterns st1 @ snd (execToolCall e toolArgs),
                               trace := trace st1 @ [Executed turn toolArgs]\<rparr>))
                  else search_loop e maxTurns (turn + 1) st1))
      else
        (\<lparr>files = [], error = Some ''Max turns reached without getting an answer'',
          raw_response = None, rg_patterns = Some (dedupe (collectedRgPatterns st)),
          meta = Some (treeMeta e)\<rparr>, st))"
  by pat_completeness auto
termination
  by (relation "measure (\<lambda>(e, maxTurns, turn, st). nat (maxTurns + 1 - int turn))") auto

text \<open>
  \<open>search\<close>: credentials (\<open>!apiKey\<close> holds for \<open>null\<close> and for the empty string), the
  rate-limit check, then the loop from the two initial messages. A throw is \<open>Inl\<close>.
\<close>

definition falsy :: "string option \<Rightarrow> bool" where
  "falsy s = (s = None \<or> s = Some [])"

definition search ::
  "env \<Rightarrow> string \<Rightarrow> string option \<Rightarrow> string option \<Rightarrow> int
     \<Rightarrow> (js_error + search_result) \<times> session" where
  "search e query apiKey jwt maxTurns =
     (let st0 = \<lparr>messages = [], collectedRgPatterns = [], trace = []\<rparr> in
      case (if falsy apiKey then getApiKey e else apiKey) of
        None \<Rightarrow> (Inl (Thrown ''Windsurf API Key not found''), st0)
      | Some key \<Rightarrow>
          (case (if falsy jwt then fetchJwt e key else jwt) of
             None \<Rightarrow> (Inl (Thrown ''Failed to extract JWT from GetUserJwt response''), st0)
           | Some tok \<Rightarrow>
               if \<not> checkRateLimit (rateLimitProbe e key tok)
               then (Inr (failure_result ''Rate limited, please try again later''), st0)
               else
                 (let userContent = ''Problem Statement: '' @ query @ repoMap e;
                      st = st0\<lparr>messages := [plain_message 5 (systemPrompt e),
                                            plain_message 1 userContent]\<rparr>;
                      r = search_loop e maxTurns 0 st
                  in (Inr (fst r), snd r))))"








text \<open>
  An environment with fixed credentials whose remote model answers from a list of replies,
  and the initial session of \<open>search\<close>.
\<close>

definition scripted_env :: "unary_outcome \<Rightarrow> reply list \<Rightarrow> env" where
  "scripted_env probe replies =
     \<lparr>getApiKey = Some ''sk-ws-01-test'',
      fetchJwt = (\<lambda>key. Some ''eyJ.test''),
      rateLimitProbe = (\<lambda>key tok. probe),
      remote = (\<lambda>turn. if turn < length replies then replies ! turn
                       else RequestFailed ''closed''),
      randomUUID = (\<lambda>turn. ''call'' @ replicate turn (CHR ''+'')),
      stringify = (\<lambda>args. ''{}''),
      execToolCall = (\<lambda>args. (''<command1_result>(no matches)</command1_result>'', [])),
      parseAnswer = (\<lambda>answer. []),
      systemPrompt = ''system'',
      repoMap = ''/codebase'',
      treeMeta = (3, False)\<rparr>"

definition initial_session :: "env \<Rightarrow> string \<Rightarrow> session" where
  "initial_session e query =
     \<lparr>messages = [plain_message 5 (systemPrompt e),
                  plain_message 1 (''Problem Statement: '' @ query @ repoMap e)],
      collectedRgPatterns = [], trace = []\<rparr>"

definition exec_reply :: reply where
  "exec_reply = Response ''searching'' (Some (''restricted_exec'', JObj []))"



section \<open>Tool executor (executor.mjs)\<close>

text \<open>\<open>text.split("\n")\<close> and \<open>lines.join("\n")\<close>.\<close>

abbreviation newline :: char where "newline \<equiv> CHR 0x0A"

primrec split_lines :: "string \<Rightarrow> string list" where
  "split_lines [] = [[]]"
| "split_lines (c # cs) =
     (if c = newline then [] # split_lines cs
      else (case split_lines cs of l # ls \<Rightarrow> (c # l) # ls | [] \<Rightarrow> [[c]]))"

fun join_lines :: "string list \<Rightarrow> string" where
  "join_lines [] = []"
| "join_lines [l] = l"
| "join_lines (l # ls) = l @ [newline] @ join_lines ls"

text \<open>
  \<open>ToolExecutor._truncate(text)\<close>: the first 50 lines, each cut to 250 characters, joined
  again; the marker line is added when the text had more than 50 lines.
\<close>

definition RESULT_MAX_LINES :: nat where "RESULT_MAX_LINES = 50"
definition LINE_MAX_CHARS :: nat where "LINE_MAX_CHARS = 250"

definition truncation_marker :: string where
  "truncation_marker = ''... (lines truncated) ...''"

definition ToolExecutor_truncate :: "string \<Rightarrow> string" where
  "ToolExecutor_truncate text =
     (let lines = split_lines text;
          limit = min (length lines) RESULT_MAX_LINES;
          truncatedLines =
            map (\<lambda>line. if length line > LINE_MAX_CHARS then slice line 0 LINE_MAX_CHARS else line)
              (take limit lines);
          result = join_lines truncatedLines
      in if length lines > RESULT_MAX_LINES then result @ [newline] @ truncation_marker
         else result)"

text \<open>
  \<open>_remap(text)\<close> is \<open>text.replaceAll(this.root, "/codebase")\<close>: the occurrences of the
  pattern, found from left to right without overlap, are replaced; the empty pattern
  matches before every character and at the end.
\<close>

function replaceAll_loop :: "string \<Rightarrow> string \<Rightarrow> string \<Rightarrow> string" where
  "replaceAll_loop pat rep [] = []"
| "replaceAll_loop pat rep (c # cs) =
     (if prefix pat (c # cs) then rep @ replaceAll_loop pat rep (drop (length pat - 1) cs)
      else c # replaceAll_loop pat rep cs)"
  by pat_completeness auto
termination
  by (relation "measure (\<lambda>(pat, rep, s). length s)") auto

definition replaceAll :: "string \<Rightarrow> string \<Rightarrow> string \<Rightarrow> string" where
  "replaceAll pat rep s =
     (if pat = [] then rep @ concat (map (\<lambda>c. c # rep) s) else replaceAll_loop pat rep s)"

definition ToolExecutor_remap :: "string \<Rightarrow> string \<Rightarrow> string" where
  "ToolExecutor_remap projectRoot text = replaceAll projectRoot ''/codebase'' text"

text \<open>
  What the executor asks of the operating system is a parameter: \<open>path.join\<close>,
  \<open>existsSync\<close>, \<open>statSync\<close> (\<open>None\<close> where it throws), \<open>readFileSync\<close> (\<open>Inl\<close> the
  message of what it throws), \<open>execFileSync\<close> (the standard output, or the error with its
  exit status, standard error and message), and the lines and matches that the directory
  walks of the tree fallback and of \<open>glob\<close> collect.
\<close>

datatype stat = IsFile | IsDirectory | IsOther

datatype exec_outcome = Stdout string | ExecFailed "int option" string string

record os =
  path_join :: "string \<Rightarrow> string \<Rightarrow> string"
  existsSync :: "string \<Rightarrow> bool"
  statSync :: "string \<Rightarrow> stat option"
  readFileSync :: "string \<Rightarrow> string + string"
  execFileSync :: "string \<Rightarrow> string list \<Rightarrow> exec_outcome"
  treeWalk :: "string \<Rightarrow> nat \<Rightarrow> string list"
  globWalk :: "string \<Rightarrow> string \<Rightarrow> string \<Rightarrow> string list"

text \<open>\<open>_real(virtual)\<close>: the mapping of a virtual path to a real one.\<close>

definition ToolExecutor_real :: "os \<Rightarrow> string \<Rightarrow> string \<Rightarrow> string" where
  "ToolExecutor_real sys projectRoot virtual =
     (if prefix ''/codebase'' virtual
      then path_join sys projectRoot (dropWhile (\<lambda>c. c = CHR ''/'') (drop 9 virtual))
      else virtual)"

text \<open>
  \<open>String(n)\<close> for an integer, and \<open>Array.prototype.slice(start, end)\<close> with its negative
  indices counted from the end.
\<close>

function show_nat :: "nat \<Rightarrow> string" where
  "show_nat n =
     (if n < 10 then [char_of (48 + n)] else show_nat (n div 10) @ [char_of (48 + n mod 10)])"
  by pat_completeness auto
termination
  by (relation "measure id") auto

definition show_int :: "int \<Rightarrow> string" where
  "show_int i = (if i < 0 then CHR ''-'' # show_nat (nat (- i)) else show_nat (nat i))"

definition js_slice :: "'a list \<Rightarrow> int \<Rightarrow> int \<Rightarrow> 'a list" where
  "js_slice xs start end =
     (let len = int (length xs);
          k = (if start < 0 then max (len + start) 0 else min start len);
          fin = (if end < 0 then max (len + end) 0 else min end len)
      in take (nat (fin - k)) (drop (nat k) xs))"

text \<open>
  The five sub-commands. \<open>rg\<close> also records its pattern: it takes and returns the list of
  collected patterns. Line numbers and levels are integers; \<open>null\<close> is \<open>None\<close>, and \<open>0\<close>
  counts as absent where the source tests the value with \<open>||\<close> or \<open>if\<close>.
\<close>

definition ToolExecutor_rg ::
  "os \<Rightarrow> string \<Rightarrow> string list \<Rightarrow> string \<Rightarrow> string \<Rightarrow> string list option \<Rightarrow> string list option
     \<Rightarrow> string \<times> string list" where
  "ToolExecutor_rg sys projectRoot collected pattern path include exclude =
     (let collected' = collected @ [pattern];
          rp = ToolExecutor_real sys projectRoot path
      in if \<not> existsSync sys rp then (''Error: path does not exist: '' @ path, collected')
         else
           (let args = [''--no-heading'', ''-n'', ''--max-count'', ''50'', pattern, rp]
                  @ concat (map (\<lambda>g. [''--glob'', g]) (case include of Some gs \<Rightarrow> gs | None \<Rightarrow> []))
                  @ concat (map (\<lambda>g. [''--glob'', CHR ''!'' # g])
                      (case exclude of Some gs \<Rightarrow> gs | None \<Rightarrow> []))
            in case execFileSync sys ''rg'' args of
                 Stdout stdout \<Rightarrow>
                   (ToolExecutor_truncate (ToolExecutor_remap projectRoot
                      (if stdout = [] then ''(no matches)'' else stdout)), collected')
               | ExecFailed status stderr msg \<Rightarrow>
                   if status = Some 1 then (''(no matches)'', collected')
                   else if stderr \<noteq> [] then
                     (ToolExecutor_truncate (ToolExecutor_remap projectRoot stderr), collected')
                   else (''Error: '' @ msg, collected')))"

definition ToolExecutor_readfile :: "os \<Rightarrow> string \<Rightarrow> string \<Rightarrow> int option \<Rightarrow> int option \<Rightarrow> string" where
  "ToolExecutor_readfile sys projectRoot file startLine endLine =
     (let rp = ToolExecutor_real sys projectRoot file in
      if statSync sys rp \<noteq> Some IsFile then ''Error: file not found: '' @ file
      else
        (case readFileSync sys rp of
           Inl msg \<Rightarrow> ''Error: '' @ msg
         | Inr fileText \<Rightarrow>
             (let allLines = split_lines fileText;
                  s = (case startLine of None \<Rightarrow> 1 | Some n \<Rightarrow> if n = 0 then 1 else n) - 1;
                  e = (case endLine of None \<Rightarrow> int (length allLines)
                       | Some n \<Rightarrow> if n = 0 then int (length allLines) else n);
                  selected = js_slice allLines s e;
                  out = join_lines
                    (map (\<lambda>(idx, line). show_int (s + int idx + 1) @ '':'' @ line)
                       (enumerate 0 selected))
              in ToolExecutor_truncate out)))"

definition ToolExecutor_tree :: "os \<Rightarrow> string \<Rightarrow> string \<Rightarrow> nat option \<Rightarrow> string" where
  "ToolExecutor_tree sys projectRoot path levels =
     (let rp = ToolExecutor_real sys projectRoot path in
      if statSync sys rp \<noteq> Some IsDirectory then ''Error: dir not found: '' @ path
      else
        (let lv = (case levels of None \<Rightarrow> 0 | Some n \<Rightarrow> n);
             args = [rp] @ (if lv \<noteq> 0 then [''-L'', show_nat lv] else [])
         in case execFileSync sys ''tree'' args of
              Stdout stdout \<Rightarrow> ToolExecutor_truncate (ToolExecutor_remap projectRoot stdout)
            | ExecFailed status stderr msg \<Rightarrow>
                join_lines (take 300 (path # treeWalk sys rp (if lv \<noteq> 0 then lv else 3)))))"

definition ToolExecutor_ls :: "os \<Rightarrow> string \<Rightarrow> string \<Rightarrow> bool \<Rightarrow> bool \<Rightarrow> string" where
  "ToolExecutor_ls sys projectRoot path longFormat allFiles =
     (let rp = ToolExecutor_real sys projectRoot path;
          args = (if longFormat then [''-l''] else []) @ (if allFiles then [''-a''] else []) @ [rp]
      in case execFileSync sys ''ls'' args of
           Stdout stdout \<Rightarrow> ToolExecutor_truncate (ToolExecutor_remap projectRoot stdout)
         | ExecFailed status stderr msg \<Rightarrow> ''Error: '' @ msg)"

definition ToolExecutor_glob :: "os \<Rightarrow> string \<Rightarrow> string \<Rightarrow> string \<Rightarrow> string \<Rightarrow> string" where
  "ToolExecutor_glob sys projectRoot pattern path typeFilter =
     (let rp = ToolExecutor_real sys projectRoot path;
          matches = globWalk sys rp pattern typeFilter;
          sorted = take 100 (sort matches);
          out = join_lines (map (ToolExecutor_remap projectRoot) sorted)
      in if out = [] then ''(no matches)'' else out)"

text \<open>
  The argument arrays that \<open>rg\<close>, \<open>tree\<close> and \<open>ls\<close> build for \<open>execFileSync\<close>, the depth
  \<open>levels || 3\<close> of the tree fallback, and the numbered block \<open>out\<close> that \<open>readfile\<close> hands to
  \<open>_truncate\<close>, each as a function of its own.
\<close>

definition rg_args :: "string \<Rightarrow> string \<Rightarrow> string list option \<Rightarrow> string list option \<Rightarrow> string list" where
  "rg_args pattern rp include exclude =
     [''--no-heading'', ''-n'', ''--max-count'', ''50'', pattern, rp]
     @ concat (map (\<lambda>g. [''--glob'', g]) (case include of Some gs \<Rightarrow> gs | None \<Rightarrow> []))
     @ concat (map (\<lambda>g. [''--glob'', CHR ''!'' # g]) (case exclude of Some gs \<Rightarrow> gs | None \<Rightarrow> []))"

definition readfile_block :: "string \<Rightarrow> int option \<Rightarrow> int option \<Rightarrow> string" where
  "readfile_block fileText startLine endLine =
     (let allLines = split_lines fileText;
          s = (case startLine of None \<Rightarrow> 1 | Some n \<Rightarrow> if n = 0 then 1 else n) - 1;
          e = (case endLine of None \<Rightarrow> int (length allLines)
               | Some n \<Rightarrow> if n = 0 then int (length allLines) else n);
          selected = js_slice allLines s e
      in join_lines
           (map (\<lambda>(idx, line). show_int (s + int idx + 1) @ '':'' @ line) (enumerate 0 selected)))"

definition tree_args :: "string \<Rightarrow> nat option \<Rightarrow> string list" where
  "tree_args rp levels =
     [rp] @ (case levels of Some n \<Rightarrow> if n \<noteq> 0 then [''-L'', show_nat n] else [] | None \<Rightarrow> [])"

definition tree_depth :: "nat option \<Rightarrow> nat" where
  "tree_depth levels = (case levels of Some n \<Rightarrow> if n \<noteq> 0 then n else 3 | None \<Rightarrow> 3)"

definition ls_args :: "bool \<Rightarrow> bool \<Rightarrow> string \<Rightarrow> string list" where
  "ls_args longFormat allFiles rp =
     (if longFormat then [''-l''] else []) @ (if allFiles then [''-a''] else []) @ [rp]"

text \<open>
  A file system given by the text of each file, with a fixed answer to every command.
\<close>

definition scripted_os :: "(string \<Rightarrow> string + string) \<Rightarrow> (string \<Rightarrow> string list \<Rightarrow> exec_outcome) \<Rightarrow> os" where
  "scripted_os fileTexts run =
     \<lparr>path_join = (\<lambda>a b. a @ ''/'' @ b),
      existsSync = (\<lambda>p. case fileTexts p of Inr t \<Rightarrow> True | Inl m \<Rightarrow> False),
      statSync = (\<lambda>p. case fileTexts p of Inr t \<Rightarrow> Some IsFile | Inl m \<Rightarrow> None),
      readFileSync = fileTexts,
      execFileSync = run,
      treeWalk = (\<lambda>p n. []),
      globWalk = (\<lambda>p pat t. [])\<rparr>"

text \<open>
  A small machine: the project \<open>/home/u/proj\<close> holds \<open>src/a.py\<close>, and outside it there is
  \<open>/etc/passwd\<close>. A command answers only to the argument lists shown and fails otherwise;
  there is no \<open>tree\<close> command for the project, so that the fallback walks it.
\<close>

definition long_listing :: string where
  "long_listing = replicate 300 (CHR ''a'') @ [newline] @ concat (replicate 59 (''f'' @ [newline]))"

definition sample_os :: os where
  "sample_os =
     \<lparr>path_join = (\<lambda>a b. if b = [] then a else a @ ''/'' @ b),
      existsSync = (\<lambda>p. p = ''/home/u/proj/src'' \<or> p = ''/home/u/proj/src/a.py''
                        \<or> p = ''/etc'' \<or> p = ''/etc/passwd''),
      statSync = (\<lambda>p. if p = ''/home/u/proj/src'' \<or> p = ''/etc'' then Some IsDirectory
                      else if p = ''/home/u/proj/src/a.py'' \<or> p = ''/etc/passwd'' then Some IsFile
                      else None),
      readFileSync = (\<lambda>p. if p = ''/home/u/proj/src/a.py''
                            then Inr (''import os'' @ [newline] @ ''print(os.name)'' @ [newline])
                          else if p = ''/etc/passwd'' then Inr ''root:x''
                          else Inl ''ENOENT''),
      execFileSync = (\<lambda>cmd args.
          if cmd = ''ls'' \<and> args = [''-l'', ''/home/u/proj/src''] then Stdout long_listing
          else if cmd = ''ls'' \<and> args = [''/etc''] then Stdout (''passwd'' @ [newline])
          else if cmd = ''rg'' \<and> args = [''--no-heading'', ''-n'', ''--max-count'', ''50'',
                                        ''root'', ''/etc/passwd'']
            then Stdout (''1:root:x'' @ [newline])
          else if cmd = ''rg'' \<and> args = [''--no-heading'', ''-n'', ''--max-count'', ''50'',
                                        ''os'', ''/home/u/proj/src'', ''--glob'', ''*.py'',
                                        ''--glob'', ''!*.pyc'']
            then Stdout (''/home/u/proj/src/a.py:1:import os'' @ [newline])
          else if cmd = ''rg'' \<and> args = [''--no-heading'', ''-n'', ''--max-count'', ''50'',
                                        ''('', ''/etc/passwd'']
            then ExecFailed (Some 2) ''regex parse error'' ''Command failed: rg''
          else if cmd = ''tree'' \<and> args = [''/etc'', ''-L'', ''2'']
            then Stdout (''/etc'' @ [newline] @ ''`-- passwd'' @ [newline])
          else ExecFailed (Some 2) [] ''spawn ENOENT''),
      treeWalk = (\<lambda>p n. if p = ''/home/u/proj/src'' \<and> n = 3
                        then replicate 60 ''|-- a.py'' else []),
      globWalk = (\<lambda>p pat t. if p = ''/home/u/proj/src'' \<and> pat = ''*.py'' \<and> t = ''all''
                            then replicate 60 ''/home/u/proj/src/a.py'' else [])\<rparr>"

section \<open>Verification\<close>

subsection \<open>Varints\<close>

lemma to_int32_id: "0 \<le> x \<Longrightarrow> x < 2147483648 \<Longrightarrow> to_int32 x = x"
  by (simp add: to_int32_def)

lemma and_127_mod: "(x::int) AND 127 = x mod 128"
proof -
  have "x AND 127 = x AND mask 7" by (simp add: mask_eq_exp_minus_1)
  also have "\<dots> = x mod 128" by (simp flip: take_bit_eq_mask add: take_bit_eq_mod)
  finally show ?thesis .
qed

lemma and_shift_zero:
  fixes a b :: int
  assumes "0 \<le> a" "a < 2 ^ n"
  shows "a AND (b * 2 ^ n) = 0"
proof -
  have a: "a = take_bit n a" using assms by (simp add: take_bit_int_eq_self)
  have "take_bit n a AND push_bit n b = 0"
    by (rule bit_eqI) (auto simp: bit_simps)
  then show ?thesis
    using a by (simp add: push_bit_eq_mult)
qed

lemma or_shift_add:
  fixes a b :: int
  assumes "0 \<le> a" "a < 2 ^ n"
  shows "a OR (b * 2 ^ n) = a + b * 2 ^ n"
  using and_shift_zero [OF assms, of b] by (simp add: disjunctive_add_eq_or)

lemma js_and_127: "0 \<le> x \<Longrightarrow> x < 2147483648 \<Longrightarrow> js_and x 127 = x mod 128"
  by (simp add: js_and_def to_int32_id and_127_mod)

lemma js_or_128: "0 \<le> x \<Longrightarrow> x < 128 \<Longrightarrow> js_or x 128 = x + 128"
  using or_shift_add [of x 7 1] by (simp add: js_or_def to_int32_id)

lemma varint_small: "v \<le> 127 \<Longrightarrow> varint v = [js_and v 127]"
  by simp

lemma varint_big: "127 < v \<Longrightarrow> varint v = js_or (js_and v 127) 128 # varint (js_ushr v 7)"
  by simp

lemma js_ushr_7: "0 \<le> v \<Longrightarrow> v < 4294967296 \<Longrightarrow> js_ushr v 7 = v div 128"
  by (simp add: js_ushr_def to_uint32_def)

lemma decode_varint_gen:
  assumes "0 \<le> v" "v * 2 ^ shift < 2147483648" "0 \<le> acc" "acc < 2 ^ shift" "shift < 32"
  shows "decodeVarint_loop (Buffer_from (varint v) @ rest) acc shift off
         = (acc + v * 2 ^ shift, off + length (varint v))"
  using assms
proof (induction v arbitrary: acc shift off rule: varint.induct)
  case (1 v)
  have p: "(0::int) < 2 ^ shift" by simp
  have vlt: "v < 2147483648"
  proof -
    have "v * 1 \<le> v * 2 ^ shift" using 1(2) by (intro mult_left_mono) simp_all
    then show ?thesis using 1(3) by simp
  qed
  have acclt: "acc < 2147483648"
  proof -
    have "(2::int) ^ shift \<le> 2 ^ 31" using 1(6) by (intro power_increasing) simp_all
    then show ?thesis using 1(5) by simp
  qed
  show ?case
  proof (cases "127 < v")
    case False
    then have v: "varint v = [v]" using 1(2) by (simp add: js_and_def to_int32_id and_127_mod del: varint.simps add: varint_small)
    have b: "uint (word_of_int v :: byte) = v"
      using False 1(2) by (simp add: uint_word_of_int)
    have m: "js_and v 127 = v" "js_and v 128 = 0"
      using False 1(2) vlt and_shift_zero [of v 7 1] by (simp_all add: js_and_def to_int32_id and_127_mod)
    have sh: "js_shl v shift = v * 2 ^ shift"
      using 1(2,3,6) vlt by (simp add: js_shl_def to_int32_id)
    have "js_or acc (v * 2 ^ shift) = acc + v * 2 ^ shift"
      using 1(2,3,4,5) acclt or_shift_add [of acc shift v] by (simp add: js_or_def to_int32_id)
    then show ?thesis
      by (simp add: v b m sh Buffer_from_def del: varint.simps)
  next
    case True
    define lo where "lo = v mod 128"
    define hi where "hi = v div 128"
    have lo: "0 \<le> lo" "lo < 128" by (simp_all add: lo_def)
    have hi: "0 \<le> hi" "1 \<le> hi" using True by (simp_all add: hi_def)
    have split: "v = hi * 128 + lo" by (simp add: lo_def hi_def)
    have ush: "js_ushr v 7 = hi" using 1(2) vlt by (simp add: js_ushr_7 hi_def)
    have v: "varint v = (lo + 128) # varint hi"
      using True 1(2) vlt lo ush varint_big [OF True]
      by (simp add: js_and_127 js_or_128 lo_def del: varint.simps)
    have b: "uint (word_of_int (lo + 128) :: byte) = lo + 128"
      unfolding uint_word_of_int using lo by simp
    have m1: "js_and (lo + 128) 127 = lo"
      using lo by (simp add: js_and_def to_int32_id and_127_mod)
    have "(lo + 128) AND 128 = (lo OR 128) AND 128"
      using or_shift_add [of lo 7 1] lo by simp
    also have "\<dots> = 128" by (rule bit_eqI) (auto simp: bit_simps)
    finally have m2: "js_and (lo + 128) 128 \<noteq> 0"
      using lo by (simp add: js_and_def to_int32_id)
    have lo_le: "lo * 2 ^ shift \<le> v * 2 ^ shift"
      using hi lo by (intro mult_right_mono) (simp_all add: split)
    have lo_lt: "lo * 2 ^ shift < 2147483648" using lo_le 1(3) by linarith
    have lo_ge: "0 \<le> lo * 2 ^ shift" using lo by simp
    have sh: "js_shl lo shift = lo * 2 ^ shift"
      using lo 1(6) to_int32_id [OF lo_ge lo_lt] by (simp add: js_shl_def to_int32_id)
    have acc': "js_or acc (lo * 2 ^ shift) = acc + lo * 2 ^ shift"
      using 1(4,5) acclt or_shift_add [of acc shift lo] to_int32_id [OF lo_ge lo_lt]
      by (simp add: js_or_def to_int32_id)
    have hi_eq: "hi * 2 ^ (shift + 7) = hi * 128 * 2 ^ shift"
      by (simp add: power_add)
    have hi_le: "hi * 2 ^ (shift + 7) \<le> v * 2 ^ shift"
      unfolding hi_eq using hi lo by (intro mult_right_mono) (simp_all add: split)
    have "(2::int) ^ (shift + 7) \<le> hi * 2 ^ (shift + 7)"
      using hi by (simp add: mult_le_cancel_right1)
    then have "(2::int) ^ (shift + 7) < 2147483648" using hi_le 1(3) by linarith
    then have "(2::int) ^ (shift + 7) < 2 ^ 31" by simp
    then have "shift + 7 < 31" by (rule power_less_imp_less_exp [rotated]) simp
    then have shift': "shift + 7 < 32" by simp
    have "acc + lo * 2 ^ shift < 2 ^ shift + lo * 2 ^ shift" using 1(5) by simp
    also have "\<dots> = (lo + 1) * 2 ^ shift" by (simp add: algebra_simps)
    also have "\<dots> \<le> 128 * 2 ^ shift" using lo by (intro mult_right_mono) simp_all
    finally have acc_lt: "acc + lo * 2 ^ shift < 2 ^ (shift + 7)" by (simp add: power_add)
    have acc_ge: "0 \<le> acc + lo * 2 ^ shift" using 1(4) lo by simp
    have IH: "decodeVarint_loop (Buffer_from (varint hi) @ rest) (acc + lo * 2 ^ shift) (shift + 7) (off + 1)
        = (acc + lo * 2 ^ shift + hi * 2 ^ (shift + 7), off + 1 + length (varint hi))"
      using "1.IH" [OF True, of "shift + 7" "acc + lo * 2 ^ shift" "off + 1"] hi hi_le 1(3) acc_ge acc_lt shift'
      unfolding ush by simp
    have total: "acc + lo * 2 ^ shift + hi * 2 ^ (shift + 7) = acc + v * 2 ^ shift"
      unfolding hi_eq by (simp add: split algebra_simps)
    have step: "decodeVarint_loop (word_of_int (lo + 128) # bs) acc shift off
        = decodeVarint_loop bs (acc + lo * 2 ^ shift) (shift + 7) (off + 1)" for bs
      by (simp only: decodeVarint_loop.simps b m1 sh acc' Let_def m2 if_False)
    have "Buffer_from (varint v) @ rest = word_of_int (lo + 128) # (Buffer_from (varint hi) @ rest)"
      by (simp only: v Buffer_from_def list.map append_Cons)
    then show ?thesis
      by (simp only: step IH total v list.size length_Cons) simp
  qed
qed

lemma decodeVarint_varint:
  "0 \<le> v \<Longrightarrow> v < 2147483648 \<Longrightarrow> decodeVarint (Buffer_from (varint v)) 0 = (v, length (varint v))"
  using decode_varint_gen [of v 0 0 "[]" 0] by (simp add: decodeVarint_def del: varint.simps)

lemma bitlen_div_pow2: "2 ^ k \<le> x \<Longrightarrow> bitlen x = bitlen (x div 2 ^ k) + int k"
proof (induction k arbitrary: x)
  case 0
  then show ?case by simp
next
  case (Suc k)
  have k1: "(1::int) \<le> 2 ^ k" by simp
  have k2: "2 * 2 ^ k \<le> x" using Suc.prems by simp
  have x: "0 < x" using k1 k2 by linarith
  note \<open>2 * 2 ^ k \<le> x\<close>
  then have "2 ^ k \<le> x div 2" by simp
  from Suc.IH [OF this] have "bitlen (x div 2) = bitlen (x div 2 div 2 ^ k) + int k" .
  moreover have "bitlen x = bitlen (x div 2) + 1" using x compute_bitlen [of x] by simp
  moreover have "x div 2 div 2 ^ k = x div 2 ^ Suc k"
    by (simp add: zdiv_zmult2_eq)
  ultimately show ?case by simp
qed

lemma bitlen_small: "0 \<le> x \<Longrightarrow> x < 128 \<Longrightarrow> bitlen x \<le> 7"
proof -
  assume a: "0 \<le> x" "x < 128"
  show ?thesis
  proof (cases "x = 0")
    case True then show ?thesis by simp
  next
    case False
    then have "0 < x" using a by simp
    from bitlen_bounds [OF this] have "2 ^ nat (bitlen x - 1) \<le> x" by simp
    then have "(2::int) ^ nat (bitlen x - 1) < 2 ^ 7" using a by simp
    then have "nat (bitlen x - 1) < 7" by (rule power_less_imp_less_exp [rotated]) simp
    then show ?thesis by simp
  qed
qed

lemma varint_length:
  "0 \<le> v \<Longrightarrow> v < 4294967296 \<Longrightarrow> int (length (varint v)) = max 1 ((bitlen v + 6) div 7)"
proof (induction v rule: varint.induct)
  case (1 v)
  show ?case
  proof (cases "127 < v")
    case False
    then have "bitlen v \<le> 7" using 1(2) by (intro bitlen_small) simp_all
    moreover have "0 \<le> bitlen v" by (rule bitlen_nonneg)
    ultimately have "(bitlen v + 6) div 7 \<le> 1" by simp
    moreover have "length (varint v) = 1" using False by simp
    ultimately show ?thesis by simp
  next
    case True
    define hi where "hi = v div 128"
    have hi: "1 \<le> hi" "hi < 4294967296" using True 1(3) by (simp_all add: hi_def)
    have ush: "js_ushr v 7 = hi" using 1(2,3) by (simp add: js_ushr_7 hi_def)
    have IH: "int (length (varint hi)) = max 1 ((bitlen hi + 6) div 7)"
      using "1.IH" [OF True] hi unfolding ush by simp
    have "bitlen v = bitlen (v div 2 ^ 7) + int 7"
      using True by (intro bitlen_div_pow2) simp
    then have bl: "bitlen v = bitlen hi + 7" by (simp add: hi_def)
    have "0 < bitlen hi" using hi bitlen_eq_zero_iff [of hi] bitlen_nonneg [of hi] by simp
    then have "1 \<le> (bitlen hi + 6) div 7" by simp
    then have "int (length (varint hi)) = (bitlen hi + 6) div 7" using IH by simp
    moreover have "length (varint v) = Suc (length (varint hi))"
      using varint_big [OF True] ush by (simp del: varint.simps)
    ultimately show ?thesis using bl by simp
  qed
qed

text \<open>
  C3 (as amended). For every integer \<open>v\<close> with \<open>0 \<le> v < 2^32\<close> the encoding has
  \<open>max 1 (ceil (bitlength v / 7))\<close> bytes, one byte when \<open>v < 128\<close>; and when moreover
  \<open>v < 2^31\<close>, decoding the encoding at offset 0 yields \<open>v\<close> again, with the offset
  just behind the encoding. The ceiling of \<open>a / 7\<close> is written \<open>(a + 6) div 7\<close>.
\<close>

theorem varint_roundtrip_and_length:
  assumes "0 \<le> v" and "v < 2 ^ 32"
  shows "(v < 2 ^ 31 \<longrightarrow> decodeVarint (Buffer_from (varint v)) 0 = (v, length (varint v)))
       \<and> int (length (varint v)) = max 1 ((bitlen v + 6) div 7)
       \<and> (v < 128 \<longrightarrow> length (varint v) = 1)"
proof -
  have "int (length (varint v)) = max 1 ((bitlen v + 6) div 7)"
    using assms by (intro varint_length) simp_all
  moreover have "decodeVarint (Buffer_from (varint v)) 0 = (v, length (varint v))" if "v < 2 ^ 31"
    using assms(1) that by (intro decodeVarint_varint) simp_all
  moreover have "length (varint v) = 1" if "v < 128"
    using that by simp
  ultimately show ?thesis by blast
qed

theorem varint_roundtrip_and_length_witness:
  "decodeVarint (Buffer_from (varint 300)) 0 = (300, length (varint 300))
   \<and> int (length (varint 300)) = max 1 ((bitlen 300 + 6) div 7)
   \<and> length (varint 5) = 1"
  using varint_roundtrip_and_length [of 300] varint_roundtrip_and_length [of 5]
  by (simp del: varint.simps)

text \<open>
  C3 as stated fails twice. At \<open>v = 2^31\<close> the encoding is right but \<open>decodeVarint\<close>
  returns a negative number, since \<open><<\<close> and \<open>|=\<close> work on signed 32-bit values; and at
  \<open>v = 127\<close> the encoding has one byte while \<open>ceil (bitlength (v + 1) / 7)\<close> is 2.
\<close>

theorem varint_claim_counterexample:
  "decodeVarint (Buffer_from (varint 2147483648)) 0 = (- 2147483648, 5)
   \<and> length (varint 127) = 1 \<and> (bitlen (127 + 1) + 6) div 7 = 2"
  by code_simp

subsection \<open>Frames\<close>

lemma unat_byte: "unat (word_of_nat x :: byte) = x mod 256"
  by (simp add: unat_of_nat)

lemma u32_digits:
  fixes n :: nat
  assumes "n < 4294967296"
  shows "n div 16777216 mod 256 * 16777216 + n div 65536 mod 256 * 65536
         + n div 256 mod 256 * 256 + n mod 256 = n"
proof -
  define a where "a = n div 256"
  define b where "b = a div 256"
  define c where "c = b div 256"
  have b: "n div 65536 = b" unfolding b_def a_def by (simp add: div_mult2_eq)
  have c: "n div 16777216 = c" unfolding c_def b_def a_def by (simp add: div_mult2_eq)
  have "c < 256" unfolding c [symmetric] using assms by simp
  then have cm: "c mod 256 = c" by simp
  have 1: "n = a * 256 + n mod 256" unfolding a_def by simp
  have 2: "a = b * 256 + a mod 256" unfolding b_def by simp
  have 3: "b = c * 256 + b mod 256" unfolding c_def by simp
  show ?thesis
    unfolding b c cm a_def [symmetric] using 1 2 3 by linarith
qed

lemma read_write_u32:
  assumes "n < 2 ^ 32"
  shows "readUInt32BE (f # uint32BE_bytes n @ rest) 1 = Inr n"
  using assms u32_digits [of n]
  by (simp add: readUInt32BE_def uint32BE_bytes_def unat_byte)

lemmas loop_simps = connectFrameDecode_loop.simps
declare connectFrameDecode_loop.simps [simp del]

lemma loop_stop: "\<not> i + 5 \<le> length data \<Longrightarrow> connectFrameDecode_loop g data i acc = Inr acc"
  by (subst loop_simps) simp

lemma read_in_range:
  "off + 4 \<le> length buf \<Longrightarrow> \<exists>n. readUInt32BE buf off = Inr n"
  by (simp add: readUInt32BE_def)

lemma loop_total: "\<exists>fs. connectFrameDecode_loop g data i acc = Inr fs"
proof (induction g data i acc rule: connectFrameDecode_loop.induct)
  case (1 g data i acc)
  show ?case
  proof (cases "i + 5 \<le> length data")
    case False
    then show ?thesis by (simp add: loop_stop)
  next
    case True
    then obtain n where n: "readUInt32BE data (i + 1) = Inr n"
      using read_in_range [of "i + 1" data] by auto
    show ?thesis
      using "1.IH" [OF True n refl refl refl] True n
      by (subst loop_simps) (simp add: Let_def)
  qed
qed

lemma loop_step:
  assumes "i + 5 \<le> length data" and "readUInt32BE data (i + 1) = Inr n"
  shows "connectFrameDecode_loop g data i acc =
         connectFrameDecode_loop g data (i + 5 + n)
           (acc @ [frame_payload g (data ! i) (subarray data (i + 5) (i + 5 + n))])"
  using assms by (subst loop_simps) (simp add: Let_def frame_payload_def)

lemma loop_acc:
  "connectFrameDecode_loop g data i [] = Inr fs \<Longrightarrow>
   connectFrameDecode_loop g data i acc = Inr (acc @ fs)"
proof (induction "length data - i" arbitrary: i acc fs rule: less_induct)
  case less
  show ?case
  proof (cases "i + 5 \<le> length data")
    case False
    then show ?thesis using less.prems by (simp add: loop_stop)
  next
    case True
    then obtain n where n: "readUInt32BE data (i + 1) = Inr n"
      using read_in_range [of "i + 1" data] by auto
    define p where "p = frame_payload g (data ! i) (subarray data (i + 5) (i + 5 + n))"
    have step: "connectFrameDecode_loop g data i a = connectFrameDecode_loop g data (i + 5 + n) (a @ [p])" for a
      unfolding p_def by (rule loop_step [OF True n])
    obtain gs where gs: "connectFrameDecode_loop g data (i + 5 + n) [] = Inr gs"
      using loop_total by blast
    have m: "length data - (i + 5 + n) < length data - i" using True by simp
    have IH: "connectFrameDecode_loop g data (i + 5 + n) a = Inr (a @ gs)" for a
      by (rule less.hyps [OF m gs])
    show ?thesis using less.prems by (simp add: step IH)
  qed
qed

lemma read_shift:
  "readUInt32BE (pre @ data) (length pre + off) = readUInt32BE data off"
  by (simp add: readUInt32BE_def nth_append add.assoc)

lemma subarray_shift:
  "subarray (pre @ data) (length pre + a) (length pre + b) = subarray data a b"
  by (simp add: subarray_def)

lemma loop_shift:
  "connectFrameDecode_loop g (pre @ data) (length pre + i) acc = connectFrameDecode_loop g data i acc"
proof (induction "length data - i" arbitrary: i acc rule: less_induct)
  case less
  show ?case
  proof (cases "i + 5 \<le> length data")
    case False
    then show ?thesis by (simp add: loop_stop)
  next
    case True
    then obtain n where n: "readUInt32BE data (i + 1) = Inr n"
      using read_in_range [of "i + 1" data] by auto
    have n': "readUInt32BE (pre @ data) (length pre + i + 1) = Inr n"
      using read_shift [of pre data "i + 1"] n by (simp add: add.assoc)
    have T': "length pre + i + 5 \<le> length (pre @ data)" using True by simp
    have m: "length data - (i + 5 + n) < length data - i" using True by simp
    have e: "length pre + i + 5 + n = length pre + (i + 5 + n)" by simp
    have s: "subarray (pre @ data) (length pre + i + 5) (length pre + i + 5 + n) = subarray data (i + 5) (i + 5 + n)"
      using subarray_shift [of pre data "i + 5" "i + 5 + n"] by (simp add: add.assoc)
    have s': "subarray (pre @ data) (length pre + i + 5) (length pre + (i + 5 + n)) = subarray data (i + 5) (i + 5 + n)"
      using s by (simp add: add.assoc)
    have x: "(pre @ data) ! (length pre + i) = data ! i" by (simp add: nth_append)
    have "connectFrameDecode_loop g (pre @ data) (length pre + i) acc
        = connectFrameDecode_loop g (pre @ data) (length pre + (i + 5 + n))
            (acc @ [frame_payload g (data ! i) (subarray data (i + 5) (i + 5 + n))])"
      by (simp only: loop_step [OF T' n'] s s' x e)
    also have "\<dots> = connectFrameDecode_loop g data (i + 5 + n)
            (acc @ [frame_payload g (data ! i) (subarray data (i + 5) (i + 5 + n))])"
      by (rule less.hyps [OF m])
    also have "\<dots> = connectFrameDecode_loop g data i acc"
      by (simp only: loop_step [OF True n])
    finally show ?thesis .
  qed
qed

lemma decode_cons:
  assumes "n < 2 ^ 32" and "connectFrameDecode g (drop n rest) = Inr fs"
  shows "connectFrameDecode g (f # uint32BE_bytes n @ rest)
         = Inr (frame_payload g f (take n rest) # fs)"
proof -
  define hdr where "hdr = f # uint32BE_bytes n"
  have lh: "length hdr = 5" by (simp add: hdr_def uint32BE_bytes_def)
  have d: "f # uint32BE_bytes n @ rest = hdr @ rest" by (simp add: hdr_def)
  have r: "readUInt32BE (hdr @ rest) (0 + 1) = Inr n"
    using read_write_u32 [OF assms(1), of f rest] by (simp add: hdr_def)
  have T: "0 + 5 \<le> length (hdr @ rest)" by (simp add: lh)
  have raw: "subarray (hdr @ rest) (0 + 5) (0 + 5 + n) = take n rest"
    by (simp add: subarray_def lh)
  have f: "(hdr @ rest) ! 0 = f" by (simp add: hdr_def)
  have tail: "connectFrameDecode_loop g rest n [] = Inr fs"
  proof (cases "n \<le> length rest")
    case True
    then have l: "length (take n rest) = n" by simp
    have "connectFrameDecode_loop g (take n rest @ drop n rest) (length (take n rest) + 0) []
          = connectFrameDecode_loop g (drop n rest) 0 []"
      by (rule loop_shift)
    then have "connectFrameDecode_loop g rest n [] = connectFrameDecode_loop g (drop n rest) 0 []"
      unfolding l by simp
    then show ?thesis using assms(2) by (simp add: connectFrameDecode_def)
  next
    case False
    then show ?thesis using assms(2) by (simp add: loop_stop connectFrameDecode_def)
  qed
  have "connectFrameDecode_loop g (hdr @ rest) (length hdr + n) a = connectFrameDecode_loop g rest n a" for a
    by (rule loop_shift)
  then have sh: "connectFrameDecode_loop g (hdr @ rest) (0 + 5 + n) a = connectFrameDecode_loop g rest n a" for a
    by (simp add: lh)
  show ?thesis
    unfolding connectFrameDecode_def d loop_step [OF T r] raw f sh
    using loop_acc [OF tail, of "[frame_payload g f (take n rest)]"] by simp
qed

lemma decode_short: "length data < 5 \<Longrightarrow> connectFrameDecode g data = Inr []"
  by (simp add: connectFrameDecode_def loop_stop)

text \<open>
  C4. For every payload and either value of the compress flag, decoding the encoded frame
  yields exactly the one-element list of the payload. zlib is a parameter: the theorem
  assumes its contract that \<open>gunzipSync\<close> inverts \<open>gzipSync\<close> on this payload, and that the
  payload as sent fits the four-byte length field of the frame format (below \<open>2^32\<close>
  bytes), which is what \<open>writeUInt32BE\<close> accepts.
\<close>

theorem frame_roundtrip:
  assumes "gunzipSync (gzipSync p) = Some p"
    and "length (if compress then gzipSync p else p) < 2 ^ 32"
  shows "\<exists>frame. connectFrameEncode gzipSync p compress = Inr frame
           \<and> connectFrameDecode gunzipSync frame = Inr [p]"
proof (cases compress)
  case True
  have e: "connectFrameEncode gzipSync p compress = Inr (1 # uint32BE_bytes (length (gzipSync p)) @ gzipSync p)"
    using assms(2) True by (simp add: connectFrameEncode_def Let_def)
  have "connectFrameDecode gunzipSync (1 # uint32BE_bytes (length (gzipSync p)) @ gzipSync p)
      = Inr (frame_payload gunzipSync 1 (take (length (gzipSync p)) (gzipSync p)) # [])"
    using assms(2) True by (intro decode_cons) (simp_all add: decode_short)
  then show ?thesis using e assms(1) by (simp add: frame_payload_def)
next
  case False
  have e: "connectFrameEncode gzipSync p compress = Inr (0 # uint32BE_bytes (length p) @ p)"
    using assms(2) False by (simp add: connectFrameEncode_def Let_def)
  have "connectFrameDecode gunzipSync (0 # uint32BE_bytes (length p) @ p)
      = Inr (frame_payload gunzipSync 0 (take (length p) p) # [])"
    using assms(2) False by (intro decode_cons) (simp_all add: decode_short)
  then show ?thesis using e by (simp add: frame_payload_def)
qed

theorem frame_roundtrip_witness:
  "(\<exists>frame. connectFrameEncode (\<lambda>p. 31 # 139 # p) [1, 2, 3] True = Inr frame
       \<and> connectFrameDecode (\<lambda>z. case z of a # b # p \<Rightarrow> if a = 31 \<and> b = 139 then Some p else None
                                        | _ \<Rightarrow> None) frame = Inr [[1, 2, 3]])
   \<and> (\<exists>frame. connectFrameEncode (\<lambda>p. 31 # 139 # p) [1, 2, 3] False = Inr frame
       \<and> connectFrameDecode (\<lambda>z. case z of a # b # p \<Rightarrow> if a = 31 \<and> b = 139 then Some p else None
                                        | _ \<Rightarrow> None) frame = Inr [[1, 2, 3]])"
  using frame_roundtrip [of "\<lambda>z. case z of a # b # p \<Rightarrow> if a = 31 \<and> b = 139 then Some p else None
                                        | _ \<Rightarrow> None" "\<lambda>p. 31 # 139 # p" "[1, 2, 3]" True]
    frame_roundtrip [of "\<lambda>z. case z of a # b # p \<Rightarrow> if a = 31 \<and> b = 139 then Some p else None
                                        | _ \<Rightarrow> None" "\<lambda>p. 31 # 139 # p" "[1, 2, 3]" False]
  by simp

text \<open>
  C5. For every input the frame decoder returns a list of payloads and raises nothing. With
  fewer than five bytes it returns no frame. A header \<open>f\<close>, \<open>n\<close> followed by \<open>rest\<close> yields
  the payload of the first \<open>n\<close> bytes of \<open>rest\<close>, then the frames of what follows them; when
  \<open>n\<close> exceeds the bytes that remain, the bytes that remain are the payload and the last
  frame. For the flags 1 and 3 a payload that does not decompress is kept as it is.
\<close>

theorem connectFrameDecode_lenient:
  "(\<exists>frames. connectFrameDecode g data = Inr frames)
   \<and> (length data < 5 \<longrightarrow> connectFrameDecode g data = Inr [])
   \<and> (n < 2 ^ 32 \<longrightarrow>
        (\<exists>fs. connectFrameDecode g (drop n rest) = Inr fs
           \<and> connectFrameDecode g (f # uint32BE_bytes n @ rest)
               = Inr (frame_payload g f (take n rest) # fs)))
   \<and> (n < 2 ^ 32 \<and> length rest < n \<longrightarrow>
        connectFrameDecode g (f # uint32BE_bytes n @ rest) = Inr [frame_payload g f rest])
   \<and> ((f = 1 \<or> f = 3) \<and> g raw = None \<longrightarrow> frame_payload g f raw = raw)"
proof -
  have a: "\<exists>frames. connectFrameDecode g d = Inr frames" for d
    unfolding connectFrameDecode_def by (rule loop_total)
  have c: "\<exists>fs. connectFrameDecode g (drop n rest) = Inr fs
           \<and> connectFrameDecode g (f # uint32BE_bytes n @ rest)
               = Inr (frame_payload g f (take n rest) # fs)" if "n < 2 ^ 32"
  proof -
    obtain fs where fs: "connectFrameDecode g (drop n rest) = Inr fs" using a by blast
    show ?thesis using decode_cons [OF that fs] fs by blast
  qed
  have d: "connectFrameDecode g (f # uint32BE_bytes n @ rest) = Inr [frame_payload g f rest]"
    if "n < 2 ^ 32" "length rest < n"
    using decode_cons [OF that(1), of g rest "[]" f] that(2) by (simp add: decode_short)
  have e: "frame_payload g f raw = raw" if "f = 1 \<or> f = 3" "g raw = None"
    using that by (simp add: frame_payload_def)
  show ?thesis using a [of data] c d e by (simp add: decode_short)
qed

theorem connectFrameDecode_lenient_witness:
  "connectFrameDecode (\<lambda>z. None) [1, 0, 0, 0, 9, 7, 8] = Inr [[7, 8]]
   \<and> connectFrameDecode (\<lambda>z. None) [1, 0, 0] = Inr []"
  using connectFrameDecode_lenient [of "\<lambda>z. None" "[1, 0, 0]" 9 "[7, 8]" 1 "[7, 8]"]
  by (simp add: uint32BE_bytes_def)

subsection \<open>The repair ladder\<close>

lemma first_parse_Repaired:
  "first_parse ps = Repaired v step \<Longrightarrow>
   \<exists>i < length ps. fst (ps ! i) = step \<and> JSON_parse (snd (ps ! i)) = Some v
      \<and> (\<forall>j < i. JSON_parse (snd (ps ! j)) = None)"
proof (induction ps)
  case Nil
  then show ?case by simp
next
  case (Cons p ps)
  show ?case
  proof (cases "JSON_parse (snd p)")
    case (Some w)
    then have "fst p = step" "w = v" using Cons.prems by simp_all
    then have "fst ((p # ps) ! 0) = step \<and> JSON_parse (snd ((p # ps) ! 0)) = Some v
        \<and> (\<forall>j < 0. JSON_parse (snd ((p # ps) ! j)) = None)"
      using Some by simp
    then show ?thesis by blast
  next
    case None
    then have "first_parse ps = Repaired v step" using Cons.prems by simp
    from Cons.IH [OF this] obtain i where i: "i < length ps" "fst (ps ! i) = step"
      "JSON_parse (snd (ps ! i)) = Some v" "\<forall>j < i. JSON_parse (snd (ps ! j)) = None"
      by blast
    have "\<forall>j < Suc i. JSON_parse (snd ((p # ps) ! j)) = None"
    proof (intro allI impI)
      fix j assume "j < Suc i"
      then show "JSON_parse (snd ((p # ps) ! j)) = None"
        using None i(4) by (cases j) simp_all
    qed
    then have "Suc i < length (p # ps) \<and> fst ((p # ps) ! Suc i) = step
        \<and> JSON_parse (snd ((p # ps) ! Suc i)) = Some v
        \<and> (\<forall>j < Suc i. JSON_parse (snd ((p # ps) ! j)) = None)"
      using i by simp
    then show ?thesis by blast
  qed
qed

lemma first_parse_Unrepaired:
  "first_parse ps = Unrepaired \<longleftrightarrow> (\<forall>p \<in> set ps. JSON_parse (snd p) = None)"
  by (induction ps) (auto split: option.splits)

text \<open>
  C1. For every input string, \<open>repairJson\<close> returns the parse of the first text of the ladder
  that parses, with the name of that step, the steps being raw parse, tail stripping,
  trailing-comma removal, key-quote fixing, single-to-double-quote conversion and bracket
  closing in this order; when no text parses it returns the failure value. So a result
  tagged with a step is the parse of that step's text, no earlier text of the ladder
  parsing, and the failure value comes exactly when none of the six parses. The model is a
  total function into the result type: no step can throw on a string.
\<close>

theorem repairJson_first_success:
  "repairJson jsonLike = first_parse (repair_ladder jsonLike)
   \<and> map fst (repair_ladder jsonLike) =
       [''raw'', ''strip_tail'', ''trailing_commas'', ''fix_key_quotes'',
        ''single_to_double_quotes'', ''close_brackets'']
   \<and> (repairJson jsonLike = Repaired v step \<longrightarrow>
        (\<exists>i < 6. fst (repair_ladder jsonLike ! i) = step
            \<and> JSON_parse (snd (repair_ladder jsonLike ! i)) = Some v
            \<and> (\<forall>j < i. JSON_parse (snd (repair_ladder jsonLike ! j)) = None)))
   \<and> (repairJson jsonLike = Unrepaired \<longleftrightarrow>
        (\<forall>p \<in> set (repair_ladder jsonLike). JSON_parse (snd p) = None))"
proof -
  have a: "repairJson jsonLike = first_parse (repair_ladder jsonLike)"
    by (simp add: repairJson_def repair_ladder_def Let_def split: option.split)
  have b: "map fst (repair_ladder jsonLike) =
       [''raw'', ''strip_tail'', ''trailing_commas'', ''fix_key_quotes'',
        ''single_to_double_quotes'', ''close_brackets'']"
    by (simp add: repair_ladder_def Let_def)
  have l: "length (repair_ladder jsonLike) = 6"
    by (simp add: repair_ladder_def Let_def)
  have c: "\<exists>i < 6. fst (repair_ladder jsonLike ! i) = step
            \<and> JSON_parse (snd (repair_ladder jsonLike ! i)) = Some v
            \<and> (\<forall>j < i. JSON_parse (snd (repair_ladder jsonLike ! j)) = None)"
    if "repairJson jsonLike = Repaired v step"
    using first_parse_Repaired [of "repair_ladder jsonLike" v step] that
    unfolding a l by simp
  have d: "repairJson jsonLike = Unrepaired \<longleftrightarrow>
        (\<forall>p \<in> set (repair_ladder jsonLike). JSON_parse (snd p) = None)"
    unfolding a by (rule first_parse_Unrepaired)
  show ?thesis using a b c d by blast
qed

theorem repairJson_first_success_witness:
  \<open>repairJson ''{"a":1,}'' = Repaired (JObj [(units ''a'', JNum ''1'')]) ''trailing_commas''
   \<and> (\<exists>i < 6. fst (repair_ladder ''{"a":1,}'' ! i) = ''trailing_commas''
         \<and> JSON_parse (snd (repair_ladder ''{"a":1,}'' ! i)) = Some (JObj [(units ''a'', JNum ''1'')])
         \<and> (\<forall>j < i. JSON_parse (snd (repair_ladder ''{"a":1,}'' ! j)) = None))\<close>
proof -
  have r: \<open>repairJson ''{"a":1,}'' = Repaired (JObj [(units ''a'', JNum ''1'')]) ''trailing_commas''\<close>
    by code_simp
  show ?thesis
    using repairJson_first_success [of \<open>''{"a":1,}''\<close> "JObj [(units ''a'', JNum ''1'')]"
        "''trailing_commas''"] r
    by blast
qed

text \<open>
  C6. The argument text whose first key lacks its opening quote is repaired by the
  key-quote step, and the object has the fields pattern = "a" and path = "b".
\<close>

theorem repairJson_missing_key_quote:
  \<open>repairJson ''{pattern":"a","path":"b"}''
     = Repaired (JObj [(units ''pattern'', JStr (units ''a'')), (units ''path'', JStr (units ''b''))])
         ''fix_key_quotes''\<close>
  by code_simp

text \<open>
  C7 (as amended). In the tool-call text whose arguments are
  \<open>{"pattern":"\w{3,5}","path":"/src"}\<close>, the braces inside the string value do not
  count for the balance: the extractor selects the whole object, whether the backslash is
  written once or twice. With the backslash written twice, as JSON requires, the raw parse
  succeeds, the pattern is the text \<open>\w{3,5}\<close> and the path is \<open>/src\<close>.
\<close>

theorem braces_inside_string:
  \<open>extractJsonLikeArgs
      (''[TOOL_CALLS]rg[ARGS]{"pattern":"'' @ [bslash] @ ''w{3,5}","path":"/src"}'') 20
     = Some (''{"pattern":"'' @ [bslash] @ ''w{3,5}","path":"/src"}'', False)
   \<and> extractJsonLikeArgs
      (''[TOOL_CALLS]rg[ARGS]{"pattern":"'' @ [bslash, bslash] @ ''w{3,5}","path":"/src"}'') 20
     = Some (''{"pattern":"'' @ [bslash, bslash] @ ''w{3,5}","path":"/src"}'', False)
   \<and> repairJson (''{"pattern":"'' @ [bslash, bslash] @ ''w{3,5}","path":"/src"}'')
     = Repaired (JObj [(units ''pattern'', JStr (units (bslash # ''w{3,5}''))),
                       (units ''path'', JStr (units ''/src''))]) ''raw''
   \<and> parseToolCallRobust
      (''[TOOL_CALLS]rg[ARGS]{"pattern":"'' @ [bslash, bslash] @ ''w{3,5}","path":"/src"}'')
     = Some ([], ''rg'', JObj [(units ''pattern'', JStr (units (bslash # ''w{3,5}''))),
                               (units ''path'', JStr (units ''/src''))])\<close>
  by code_simp

text \<open>
  C7 as stated fails: with the backslash written once, \<open>\w\<close> is no escape of JSON, no
  step of the ladder changes it, and the tool call is lost.
\<close>

theorem braces_inside_string_counterexample:
  \<open>repairJson (''{"pattern":"'' @ [bslash] @ ''w{3,5}","path":"/src"}'') = Unrepaired
   \<and> parseToolCallRobust
      (''[TOOL_CALLS]rg[ARGS]{"pattern":"'' @ [bslash] @ ''w{3,5}","path":"/src"}'') = None\<close>
  by code_simp

subsection \<open>The orchestrator\<close>

declare search_loop.simps [simp del]


















text \<open>
  C8. With credentials at hand, a rate-limit probe that fails with status 429 makes
  \<open>search\<close> return an empty file list and the rate-limited error, with no request sent and
  no command executed; any other outcome of the probe, failures included, counts as OK and
  the session goes on to the turns.
\<close>

theorem rate_limit_short_circuit:
  assumes "(if falsy apiKey then getApiKey e else apiKey) = Some key"
    and "(if falsy jwt then fetchJwt e key else jwt) = Some tok"
  shows "(rateLimitProbe e key tok = HttpError 429 \<longrightarrow>
            search e query apiKey jwt maxTurns
              = (Inr \<lparr>files = [], error = Some ''Rate limited, please try again later'',
                       raw_response = None, rg_patterns = None, meta = None\<rparr>,
                 \<lparr>messages = [], collectedRgPatterns = [], trace = []\<rparr>))
       \<and> (rateLimitProbe e key tok \<noteq> HttpError 429 \<longrightarrow>
            checkRateLimit (rateLimitProbe e key tok)
            \<and> search e query apiKey jwt maxTurns
              = (Inr (fst (search_loop e maxTurns 0 (initial_session e query))),
                 snd (search_loop e maxTurns 0 (initial_session e query))))"
proof -
  have ok: "checkRateLimit r" if "r \<noteq> HttpError 429" for r
    using that by (cases r) (auto simp: checkRateLimit_def)
  have no: "\<not> checkRateLimit (HttpError 429)" by (simp add: checkRateLimit_def)
  show ?thesis
    using assms ok [of "rateLimitProbe e key tok"] no
    by (auto simp: search_def Let_def failure_result_def initial_session_def)
qed

theorem rate_limit_short_circuit_witness:
  "search (scripted_env (HttpError 429) [exec_reply]) ''q'' None None 3
     = (Inr \<lparr>files = [], error = Some ''Rate limited, please try again later'',
              raw_response = None, rg_patterns = None, meta = None\<rparr>,
        \<lparr>messages = [], collectedRgPatterns = [], trace = []\<rparr>)
   \<and> checkRateLimit (TransportError ''fetch failed'')
   \<and> search (scripted_env (TransportError ''fetch failed'') [exec_reply]) ''q'' None None 3
     = (Inr (fst (search_loop (scripted_env (TransportError ''fetch failed'') [exec_reply]) 3 0
               (initial_session (scripted_env (TransportError ''fetch failed'') [exec_reply]) ''q''))),
        snd (search_loop (scripted_env (TransportError ''fetch failed'') [exec_reply]) 3 0
               (initial_session (scripted_env (TransportError ''fetch failed'') [exec_reply]) ''q'')))"
  using rate_limit_short_circuit [of None "scripted_env (HttpError 429) [exec_reply]"
      "''sk-ws-01-test''" None "''eyJ.test''" "''q''" 3]
    rate_limit_short_circuit [of None "scripted_env (TransportError ''fetch failed'') [exec_reply]"
      "''sk-ws-01-test''" None "''eyJ.test''" "''q''" 3]
  by (simp add: scripted_env_def falsy_def)

subsection \<open>The tool executor\<close>

lemma split_lines_nonempty: "split_lines s \<noteq> []"
  by (induction s) (auto split: list.splits)

lemma length_split_lines: "0 < length (split_lines s)"
  using split_lines_nonempty [of s] by simp

lemma split_lines_no_newline: "l \<in> set (split_lines s) \<Longrightarrow> newline \<notin> set l"
proof (induction s arbitrary: l)
  case Nil
  then show ?case by simp
next
  case (Cons c cs)
  obtain h t where ht: "split_lines cs = h # t"
    using split_lines_nonempty [of cs] by (cases "split_lines cs") auto
  show ?case
  proof (cases "c = newline")
    case True
    then show ?thesis using Cons by auto
  next
    case False
    then have "l = c # h \<or> l \<in> set t" using Cons.prems ht by simp
    then show ?thesis using Cons.IH [of h] Cons.IH [of l] ht False by auto
  qed
qed

lemma split_lines_append:
  "split_lines (a @ newline # b) = split_lines a @ split_lines b"
proof (induction a)
  case Nil
  then show ?case by simp
next
  case (Cons c a)
  obtain h t where ht: "split_lines a = h # t"
    using split_lines_nonempty [of a] by (cases "split_lines a") auto
  show ?case using Cons ht by simp
qed

lemma split_lines_single: "newline \<notin> set l \<Longrightarrow> split_lines l = [l]"
proof (induction l)
  case Nil
  then show ?case by simp
next
  case (Cons c l)
  then show ?case by auto
qed

lemma split_join_lines:
  "ls \<noteq> [] \<Longrightarrow> (\<forall>l \<in> set ls. newline \<notin> set l) \<Longrightarrow> split_lines (join_lines ls) = ls"
proof (induction ls rule: join_lines.induct)
  case 1
  then show ?case by simp
next
  case (2 l)
  then show ?case by (simp add: split_lines_single)
next
  case (3 l v va)
  have "split_lines (join_lines (v # va)) = v # va" using 3 by simp
  then show ?case using 3(3) by (simp add: split_lines_append split_lines_single)
qed

lemma truncate_line:
  "(\<lambda>line. if length line > LINE_MAX_CHARS then slice line 0 LINE_MAX_CHARS else line) = take 250"
  by (rule ext) (simp add: slice_def LINE_MAX_CHARS_def)

lemma truncate_lines:
  "split_lines (ToolExecutor_truncate text)
   = map (take 250) (take 50 (split_lines text))
     @ (if length (split_lines text) > 50 then [truncation_marker] else [])"
proof -
  define kept where "kept = map (take 250) (take 50 (split_lines text))"
  have ne: "kept \<noteq> []"
    using split_lines_nonempty [of "text"] by (simp add: kept_def)
  have nn: "\<forall>l \<in> set kept. newline \<notin> set l"
  proof
    fix l assume "l \<in> set kept"
    then obtain l0 where l0: "l0 \<in> set (split_lines text)" "l = take 250 l0"
      by (auto simp: kept_def dest: in_set_takeD)
    then show "newline \<notin> set l"
      using split_lines_no_newline [OF l0(1)] by (auto dest: in_set_takeD)
  qed
  have sj: "split_lines (join_lines kept) = kept" using ne nn by (rule split_join_lines)
  have mk: "split_lines truncation_marker = [truncation_marker]"
    by (rule split_lines_single) (simp add: truncation_marker_def)
  have t: "ToolExecutor_truncate text
      = (if length (split_lines text) > 50 then join_lines kept @ newline # truncation_marker
         else join_lines kept)"
    unfolding ToolExecutor_truncate_def Let_def truncate_line
    by (simp add: RESULT_MAX_LINES_def kept_def min_def)
  show ?thesis
    unfolding t kept_def [symmetric] by (simp add: split_lines_append sj mk)
qed

lemma js_slice_all: "js_slice xs 0 (int (length xs)) = xs"
  by (simp add: js_slice_def Let_def)

lemma truncation_marker_length: "length truncation_marker \<le> 250"
  by (simp add: truncation_marker_def)

lemma rg_unfold:
  "ToolExecutor_rg sys projectRoot collected pattern path include exclude
   = (if \<not> existsSync sys (ToolExecutor_real sys projectRoot path)
      then (''Error: path does not exist: '' @ path, collected @ [pattern])
      else case execFileSync sys ''rg''
                  (rg_args pattern (ToolExecutor_real sys projectRoot path) include exclude) of
             Stdout out \<Rightarrow>
               (ToolExecutor_truncate (ToolExecutor_remap projectRoot
                  (if out = [] then ''(no matches)'' else out)), collected @ [pattern])
           | ExecFailed status stderr msg \<Rightarrow>
               if status = Some 1 then (''(no matches)'', collected @ [pattern])
               else if stderr \<noteq> [] then
                 (ToolExecutor_truncate (ToolExecutor_remap projectRoot stderr), collected @ [pattern])
               else (''Error: '' @ msg, collected @ [pattern]))"
  by (simp add: ToolExecutor_rg_def rg_args_def Let_def)

lemma readfile_unfold:
  "ToolExecutor_readfile sys projectRoot file startLine endLine
   = (if statSync sys (ToolExecutor_real sys projectRoot file) \<noteq> Some IsFile
      then ''Error: file not found: '' @ file
      else case readFileSync sys (ToolExecutor_real sys projectRoot file) of
             Inl msg \<Rightarrow> ''Error: '' @ msg
           | Inr fileText \<Rightarrow> ToolExecutor_truncate (readfile_block fileText startLine endLine))"
  by (simp add: ToolExecutor_readfile_def readfile_block_def Let_def split: sum.splits)

lemma tree_unfold:
  "ToolExecutor_tree sys projectRoot path levels
   = (if statSync sys (ToolExecutor_real sys projectRoot path) \<noteq> Some IsDirectory
      then ''Error: dir not found: '' @ path
      else case execFileSync sys ''tree''
                  (tree_args (ToolExecutor_real sys projectRoot path) levels) of
             Stdout out \<Rightarrow> ToolExecutor_truncate (ToolExecutor_remap projectRoot out)
           | ExecFailed status stderr msg \<Rightarrow>
               join_lines (take 300
                 (path # treeWalk sys (ToolExecutor_real sys projectRoot path) (tree_depth levels))))"
  by (cases levels) (simp_all add: ToolExecutor_tree_def tree_args_def tree_depth_def Let_def del: show_nat.simps
      split: exec_outcome.splits)

lemma ls_unfold:
  "ToolExecutor_ls sys projectRoot path longFormat allFiles
   = (case execFileSync sys ''ls''
             (ls_args longFormat allFiles (ToolExecutor_real sys projectRoot path)) of
        Stdout out \<Rightarrow> ToolExecutor_truncate (ToolExecutor_remap projectRoot out)
      | ExecFailed status stderr msg \<Rightarrow> ''Error: '' @ msg)"
  by (simp add: ToolExecutor_ls_def ls_args_def Let_def)

lemma glob_unfold:
  "ToolExecutor_glob sys projectRoot pattern path typeFilter
   = (if join_lines (map (ToolExecutor_remap projectRoot)
           (take 100 (sort (globWalk sys (ToolExecutor_real sys projectRoot path) pattern typeFilter))))
         = []
      then ''(no matches)''
      else join_lines (map (ToolExecutor_remap projectRoot)
           (take 100 (sort (globWalk sys (ToolExecutor_real sys projectRoot path) pattern typeFilter)))))"
  by (simp add: ToolExecutor_glob_def Let_def)

lemma length_split_lines_count:
  "length (split_lines s) = Suc (length (filter (\<lambda>c. c = newline) s))"
proof (induction s)
  case Nil
  then show ?case by simp
next
  case (Cons c cs)
  obtain h t where ht: "split_lines cs = h # t"
    using split_lines_nonempty [of cs] by (cases "split_lines cs") auto
  show ?case using Cons ht by auto
qed

text \<open>
  C9 (as amended). The lines of a block are the pieces of \<open>split("\n")\<close>, one more than it
  has newline characters, so that a final newline is followed by an empty last line. The
  block \<open>_truncate\<close> returns holds the first 50 lines of its input, each cut to at most 250
  characters, followed by the marker line exactly when the input had more than 50 lines: at
  most 51 lines in all, at most 50 when nothing was dropped, and no marker for a line that
  was cut. What passes through \<open>_truncate\<close> is the output of a command that succeeded, for
  search, tree and list, with the project root written back as \<open>/codebase\<close>; the standard
  error of a search that failed with a status other than 1; and the numbered lines that
  read-file selected. The fixed texts and the error messages of the sub-commands are
  returned as they are, and so are the first 300 lines of the walk that tree falls back to
  and the first 100 sorted matches of glob.
\<close>

theorem truncate_bounds:
  "split_lines (ToolExecutor_truncate block)
     = map (take 250) (take 50 (split_lines block))
       @ (if length (split_lines block) > 50 then [truncation_marker] else [])
   \<and> length (split_lines block) = Suc (length (filter (\<lambda>c. c = newline) block))
   \<and> length (split_lines (ToolExecutor_truncate block)) \<le> 51
   \<and> (length (split_lines block) \<le> 50 \<longrightarrow> length (split_lines (ToolExecutor_truncate block)) \<le> 50)
   \<and> (\<forall>l \<in> set (split_lines (ToolExecutor_truncate block)). length l \<le> 250)
   \<and> ToolExecutor_rg sys projectRoot collected pattern path includeGlobs excludeGlobs
     = (if \<not> existsSync sys (ToolExecutor_real sys projectRoot path)
        then (''Error: path does not exist: '' @ path, collected @ [pattern])
        else case execFileSync sys ''rg''
                    (rg_args pattern (ToolExecutor_real sys projectRoot path)
                       includeGlobs excludeGlobs) of
               Stdout out \<Rightarrow>
                 (ToolExecutor_truncate (ToolExecutor_remap projectRoot
                    (if out = [] then ''(no matches)'' else out)), collected @ [pattern])
             | ExecFailed status stderr msg \<Rightarrow>
                 if status = Some 1 then (''(no matches)'', collected @ [pattern])
                 else if stderr \<noteq> [] then
                   (ToolExecutor_truncate (ToolExecutor_remap projectRoot stderr),
                    collected @ [pattern])
                 else (''Error: '' @ msg, collected @ [pattern]))
   \<and> ToolExecutor_readfile sys projectRoot path startLine endLine
     = (if statSync sys (ToolExecutor_real sys projectRoot path) \<noteq> Some IsFile
        then ''Error: file not found: '' @ path
        else case readFileSync sys (ToolExecutor_real sys projectRoot path) of
               Inl msg \<Rightarrow> ''Error: '' @ msg
             | Inr fileText \<Rightarrow> ToolExecutor_truncate (readfile_block fileText startLine endLine))
   \<and> ToolExecutor_tree sys projectRoot path levels
     = (if statSync sys (ToolExecutor_real sys projectRoot path) \<noteq> Some IsDirectory
        then ''Error: dir not found: '' @ path
        else case execFileSync sys ''tree''
                    (tree_args (ToolExecutor_real sys projectRoot path) levels) of
               Stdout out \<Rightarrow> ToolExecutor_truncate (ToolExecutor_remap projectRoot out)
             | ExecFailed status stderr msg \<Rightarrow>
                 join_lines (take 300
                   (path # treeWalk sys (ToolExecutor_real sys projectRoot path)
                             (tree_depth levels))))
   \<and> ToolExecutor_ls sys projectRoot path longFormat allFiles
     = (case execFileSync sys ''ls''
               (ls_args longFormat allFiles (ToolExecutor_real sys projectRoot path)) of
          Stdout out \<Rightarrow> ToolExecutor_truncate (ToolExecutor_remap projectRoot out)
        | ExecFailed status stderr msg \<Rightarrow> ''Error: '' @ msg)
   \<and> ToolExecutor_glob sys projectRoot pattern path typeFilter
     = (if join_lines (map (ToolExecutor_remap projectRoot)
             (take 100 (sort (globWalk sys (ToolExecutor_real sys projectRoot path) pattern typeFilter))))
           = []
        then ''(no matches)''
        else join_lines (map (ToolExecutor_remap projectRoot)
             (take 100 (sort (globWalk sys (ToolExecutor_real sys projectRoot path) pattern typeFilter)))))"
proof -
  note a = truncate_lines [of block]
  note n = length_split_lines_count [of block]
  have b: "length (split_lines (ToolExecutor_truncate block)) \<le> 51"
    unfolding a by simp
  have c: "length (split_lines (ToolExecutor_truncate block)) \<le> 50"
    if "length (split_lines block) \<le> 50"
    unfolding a using that by simp
  have d: "\<forall>l \<in> set (split_lines (ToolExecutor_truncate block)). length l \<le> 250"
    unfolding a using truncation_marker_length by auto
  show ?thesis
    apply (intro conjI impI)
    subgoal by (rule a)
    subgoal by (rule n)
    subgoal by (rule b)
    subgoal by (rule c)
    subgoal by (rule d)
    subgoal by (rule rg_unfold)
    subgoal by (rule readfile_unfold)
    subgoal by (rule tree_unfold)
    subgoal by (rule ls_unfold)
    subgoal by (rule glob_unfold)
    done
qed

text \<open>
  On the sample machine: a listing of 60 lines whose first line has 300 characters comes
  back as that line cut to 250 characters, 49 more lines and the marker; 50 lines that each
  end in a newline get the marker, 49 do not.
\<close>

theorem truncate_bounds_witness:
  "split_lines (ToolExecutor_ls sample_os ''/home/u/proj'' ''/codebase/src'' True False)
     = replicate 250 (CHR ''a'') # replicate 49 ''f'' @ [truncation_marker]
   \<and> split_lines (ToolExecutor_truncate (concat (replicate 50 (''f'' @ [newline]))))
     = replicate 50 ''f'' @ [truncation_marker]
   \<and> length (split_lines (ToolExecutor_truncate (concat (replicate 49 (''f'' @ [newline]))))) \<le> 50
   \<and> list_all (\<lambda>l. length l \<le> 250)
        (split_lines (ToolExecutor_truncate (ToolExecutor_remap ''/home/u/proj'' long_listing)))
   \<and> ToolExecutor_readfile sample_os ''/home/u/proj'' ''/codebase/src/a.py'' (Some 2) (Some 2)
     = ''2:print(os.name)''
   \<and> fst (ToolExecutor_rg sample_os ''/home/u/proj'' [] ''os'' ''/codebase/src''
          (Some [''*.py'']) (Some [''*.pyc'']))
     = ''/codebase/src/a.py:1:import os'' @ [newline]
   \<and> fst (ToolExecutor_rg sample_os ''/home/u/proj'' [] ''('' ''/etc/passwd'' None None)
     = ''regex parse error''
   \<and> ToolExecutor_tree sample_os ''/home/u/proj'' ''/etc'' (Some 2)
     = ''/etc'' @ [newline] @ ''`-- passwd'' @ [newline]"
proof -
  let ?listing = "ToolExecutor_remap ''/home/u/proj'' long_listing"
  let ?fifty = "concat (replicate 50 (''f'' @ [newline]))"
  let ?short = "concat (replicate 49 (''f'' @ [newline]))"
  note commands = truncate_bounds [where sys = sample_os and projectRoot = "''/home/u/proj''",
      THEN conjunct2, THEN conjunct2, THEN conjunct2, THEN conjunct2, THEN conjunct2]
  have 1: "split_lines (ToolExecutor_ls sample_os ''/home/u/proj'' ''/codebase/src'' True False)
     = replicate 250 (CHR ''a'') # replicate 49 ''f'' @ [truncation_marker]"
    unfolding commands [THEN conjunct2, THEN conjunct2, THEN conjunct2, THEN conjunct1]
    by code_simp
  have fifty_lines: "split_lines (ToolExecutor_truncate ?fifty)
      = map (take 250) (take 50 (split_lines ?fifty))
        @ (if length (split_lines ?fifty) > 50 then [truncation_marker] else [])"
    using truncate_bounds [where block = ?fifty] by blast
  have fifty_value: "map (take 250) (take 50 (split_lines ?fifty))
        @ (if length (split_lines ?fifty) > 50 then [truncation_marker] else [])
      = replicate 50 ''f'' @ [truncation_marker]"
    by code_simp
  have 2: "split_lines (ToolExecutor_truncate ?fifty) = replicate 50 ''f'' @ [truncation_marker]"
    by (simp only: fifty_lines fifty_value)
  have short_lines: "length (split_lines ?short) \<le> 50"
    by code_simp
  have 3: "length (split_lines (ToolExecutor_truncate ?short)) \<le> 50"
    using truncate_bounds [where block = ?short] short_lines by blast
  have 4: "list_all (\<lambda>l. length l \<le> 250) (split_lines (ToolExecutor_truncate ?listing))"
    using truncate_bounds [where block = ?listing] unfolding list_all_iff by blast
  have 5: "ToolExecutor_readfile sample_os ''/home/u/proj'' ''/codebase/src/a.py'' (Some 2) (Some 2)
     = ''2:print(os.name)''"
    unfolding commands [THEN conjunct2, THEN conjunct1] by code_simp
  have 6: "fst (ToolExecutor_rg sample_os ''/home/u/proj'' [] ''os'' ''/codebase/src''
          (Some [''*.py'']) (Some [''*.pyc'']))
     = ''/codebase/src/a.py:1:import os'' @ [newline]"
    unfolding commands [THEN conjunct1] by code_simp
  have 7: "fst (ToolExecutor_rg sample_os ''/home/u/proj'' [] ''('' ''/etc/passwd'' None None)
     = ''regex parse error''"
    unfolding commands [THEN conjunct1] by code_simp
  have 8: "ToolExecutor_tree sample_os ''/home/u/proj'' ''/etc'' (Some 2)
     = ''/etc'' @ [newline] @ ''`-- passwd'' @ [newline]"
    unfolding commands [THEN conjunct2, THEN conjunct2, THEN conjunct1] by code_simp
  show ?thesis using 1 2 3 4 5 6 7 8 by blast
qed

text \<open>
  C9 as stated fails: a listing of one line of 251 characters comes back cut to 250
  characters with no marker, a listing of more than 50 lines comes back as 51 lines, 60
  matches of glob come back as 60 lines and a walk of 60 entries comes back from tree as 61
  lines, both without a marker, and an error message of more than 250 characters comes back
  whole.
\<close>

theorem truncate_silent_counterexample:
  "ToolExecutor_ls (scripted_os (\<lambda>p. Inl ''ENOENT'') (\<lambda>cmd args. Stdout (replicate 251 (CHR ''a''))))
      ''/r'' ''/codebase'' False False
     = replicate 250 (CHR ''a'')
   \<and> length (split_lines
        (ToolExecutor_ls
           (scripted_os (\<lambda>p. Inl ''ENOENT'')
              (\<lambda>cmd args. Stdout (concat (replicate 60 (''f'' @ [newline])))))
           ''/r'' ''/codebase'' False False))
     = 51
   \<and> split_lines (ToolExecutor_glob sample_os ''/home/u/proj'' ''*.py'' ''/codebase/src'' ''all'')
     = replicate 60 ''/codebase/src/a.py''
   \<and> split_lines (ToolExecutor_tree sample_os ''/home/u/proj'' ''/codebase/src'' None)
     = ''/codebase/src'' # replicate 60 ''|-- a.py''
   \<and> ToolExecutor_readfile sample_os ''/home/u/proj'' (replicate 300 (CHR ''x'')) None None
     = ''Error: file not found: '' @ replicate 300 (CHR ''x'')"
  by code_simp

text \<open>
  C10. The real path of a path that begins with \<open>/codebase\<close> is the join of the project
  root and the remainder without its leading slashes; the real path of any other path is
  the path itself. Each of the five sub-commands asks the operating system about that real
  path and nothing else: the existence test and the command line of search, the file that
  read-file reads, the directory that tree shows or walks, the directory that list lists,
  and the directory that glob walks.
\<close>

theorem real_path_mapping:
  assumes "rp = (if prefix ''/codebase'' path
                 then path_join sys projectRoot (dropWhile (\<lambda>c. c = CHR ''/'') (drop 9 path))
                 else path)"
  shows "ToolExecutor_real sys projectRoot path = rp
   \<and> ToolExecutor_rg sys projectRoot collected pattern path includeGlobs excludeGlobs
     = (if \<not> existsSync sys rp
        then (''Error: path does not exist: '' @ path, collected @ [pattern])
        else case execFileSync sys ''rg'' (rg_args pattern rp includeGlobs excludeGlobs) of
               Stdout out \<Rightarrow>
                 (ToolExecutor_truncate (ToolExecutor_remap projectRoot
                    (if out = [] then ''(no matches)'' else out)), collected @ [pattern])
             | ExecFailed status stderr msg \<Rightarrow>
                 if status = Some 1 then (''(no matches)'', collected @ [pattern])
                 else if stderr \<noteq> [] then
                   (ToolExecutor_truncate (ToolExecutor_remap projectRoot stderr),
                    collected @ [pattern])
                 else (''Error: '' @ msg, collected @ [pattern]))
   \<and> ToolExecutor_readfile sys projectRoot path startLine endLine
     = (if statSync sys rp \<noteq> Some IsFile then ''Error: file not found: '' @ path
        else case readFileSync sys rp of
               Inl msg \<Rightarrow> ''Error: '' @ msg
             | Inr fileText \<Rightarrow> ToolExecutor_truncate (readfile_block fileText startLine endLine))
   \<and> ToolExecutor_tree sys projectRoot path levels
     = (if statSync sys rp \<noteq> Some IsDirectory then ''Error: dir not found: '' @ path
        else case execFileSync sys ''tree'' (tree_args rp levels) of
               Stdout out \<Rightarrow> ToolExecutor_truncate (ToolExecutor_remap projectRoot out)
             | ExecFailed status stderr msg \<Rightarrow>
                 join_lines (take 300 (path # treeWalk sys rp (tree_depth levels))))
   \<and> ToolExecutor_ls sys projectRoot path longFormat allFiles
     = (case execFileSync sys ''ls'' (ls_args longFormat allFiles rp) of
          Stdout out \<Rightarrow> ToolExecutor_truncate (ToolExecutor_remap projectRoot out)
        | ExecFailed status stderr msg \<Rightarrow> ''Error: '' @ msg)
   \<and> ToolExecutor_glob sys projectRoot pattern path typeFilter
     = (if join_lines (map (ToolExecutor_remap projectRoot)
             (take 100 (sort (globWalk sys rp pattern typeFilter)))) = []
        then ''(no matches)''
        else join_lines (map (ToolExecutor_remap projectRoot)
             (take 100 (sort (globWalk sys rp pattern typeFilter)))))"
proof -
  have r: "rp = ToolExecutor_real sys projectRoot path"
    unfolding assms by (simp add: ToolExecutor_real_def)
  show ?thesis
    unfolding r
    by (intro conjI refl rg_unfold readfile_unfold tree_unfold ls_unfold glob_unfold)
qed

text \<open>
  On the sample machine, with the project root \<open>/home/u/proj\<close>: \<open>/codebase/src/a.py\<close> is read
  from the project, and \<open>/etc/passwd\<close> and \<open>/etc\<close>, outside it, are read, searched, shown and
  listed as they are.
\<close>

theorem real_path_mapping_witness:
  "ToolExecutor_real sample_os ''/home/u/proj'' ''/codebase/src/a.py'' = ''/home/u/proj/src/a.py''
   \<and> ToolExecutor_real sample_os ''/home/u/proj'' ''/etc/passwd'' = ''/etc/passwd''
   \<and> ToolExecutor_readfile sample_os ''/home/u/proj'' ''/codebase/src/a.py'' None (Some 1)
     = ''1:import os''
   \<and> ToolExecutor_readfile sample_os ''/home/u/proj'' ''/etc/passwd'' None None = ''1:root:x''
   \<and> ToolExecutor_rg sample_os ''/home/u/proj'' [] ''root'' ''/etc/passwd'' None None
     = (''1:root:x'' @ [newline], [''root''])
   \<and> ToolExecutor_tree sample_os ''/home/u/proj'' ''/etc'' (Some 2)
     = ''/etc'' @ [newline] @ ''`-- passwd'' @ [newline]
   \<and> ToolExecutor_ls sample_os ''/home/u/proj'' ''/etc'' False False = ''passwd'' @ [newline]
   \<and> ToolExecutor_ls sample_os ''/home/u/proj'' ''/codebase/missing'' False False
     = ''Error: spawn ENOENT''
   \<and> ToolExecutor_glob sample_os ''/home/u/proj'' ''*.py'' ''/codebase/src'' ''all''
     = join_lines (replicate 60 ''/codebase/src/a.py'')"
proof -
  have inside: "''/home/u/proj/src/a.py''
      = (if prefix ''/codebase'' ''/codebase/src/a.py''
         then path_join sample_os ''/home/u/proj''
                (dropWhile (\<lambda>c. c = CHR ''/'') (drop 9 ''/codebase/src/a.py''))
         else ''/codebase/src/a.py'')"
    by code_simp
  have src: "''/home/u/proj/src''
      = (if prefix ''/codebase'' ''/codebase/src''
         then path_join sample_os ''/home/u/proj''
                (dropWhile (\<lambda>c. c = CHR ''/'') (drop 9 ''/codebase/src''))
         else ''/codebase/src'')"
    by code_simp
  have missing: "''/home/u/proj/missing''
      = (if prefix ''/codebase'' ''/codebase/missing''
         then path_join sample_os ''/home/u/proj''
                (dropWhile (\<lambda>c. c = CHR ''/'') (drop 9 ''/codebase/missing''))
         else ''/codebase/missing'')"
    by code_simp
  have passwd: "''/etc/passwd''
      = (if prefix ''/codebase'' ''/etc/passwd''
         then path_join sample_os ''/home/u/proj''
                (dropWhile (\<lambda>c. c = CHR ''/'') (drop 9 ''/etc/passwd''))
         else ''/etc/passwd'')"
    by code_simp
  have etc: "''/etc''
      = (if prefix ''/codebase'' ''/etc''
         then path_join sample_os ''/home/u/proj''
                (dropWhile (\<lambda>c. c = CHR ''/'') (drop 9 ''/etc''))
         else ''/etc'')"
    by code_simp
  note at_inside = real_path_mapping [OF inside, where startLine = None and endLine = "Some 1"]
  note at_passwd = real_path_mapping [OF passwd, where startLine = None and endLine = None
      and collected = "[]" and pattern = "''root''" and includeGlobs = None and excludeGlobs = None]
  note at_etc = real_path_mapping [OF etc, where levels = "Some 2" and longFormat = False
      and allFiles = False]
  note at_missing = real_path_mapping [OF missing, where longFormat = False and allFiles = False]
  note at_src = real_path_mapping [OF src, where pattern = "''*.py''" and typeFilter = "''all''"]
  have 1: "ToolExecutor_real sample_os ''/home/u/proj'' ''/codebase/src/a.py''
      = ''/home/u/proj/src/a.py''"
    using at_inside by blast
  have 2: "ToolExecutor_real sample_os ''/home/u/proj'' ''/etc/passwd'' = ''/etc/passwd''"
    using at_passwd by blast
  have 3: "ToolExecutor_readfile sample_os ''/home/u/proj'' ''/codebase/src/a.py'' None (Some 1)
      = ''1:import os''"
    unfolding at_inside [THEN conjunct2, THEN conjunct2, THEN conjunct1] by code_simp
  have 4: "ToolExecutor_readfile sample_os ''/home/u/proj'' ''/etc/passwd'' None None
      = ''1:root:x''"
    unfolding at_passwd [THEN conjunct2, THEN conjunct2, THEN conjunct1] by code_simp
  have 5: "ToolExecutor_rg sample_os ''/home/u/proj'' [] ''root'' ''/etc/passwd'' None None
      = (''1:root:x'' @ [newline], [''root''])"
    unfolding at_passwd [THEN conjunct2, THEN conjunct1] by code_simp
  have 6: "ToolExecutor_tree sample_os ''/home/u/proj'' ''/etc'' (Some 2)
      = ''/etc'' @ [newline] @ ''`-- passwd'' @ [newline]"
    unfolding at_etc [THEN conjunct2, THEN conjunct2, THEN conjunct2, THEN conjunct1]
    by code_simp
  have 7: "ToolExecutor_ls sample_os ''/home/u/proj'' ''/etc'' False False = ''passwd'' @ [newline]"
    unfolding at_etc [THEN conjunct2, THEN conjunct2, THEN conjunct2, THEN conjunct2,
        THEN conjunct1]
    by code_simp
  have 8: "ToolExecutor_ls sample_os ''/home/u/proj'' ''/codebase/missing'' False False
      = ''Error: spawn ENOENT''"
    unfolding at_missing [THEN conjunct2, THEN conjunct2, THEN conjunct2, THEN conjunct2,
        THEN conjunct1]
    by code_simp
  have 9: "ToolExecutor_glob sample_os ''/home/u/proj'' ''*.py'' ''/codebase/src'' ''all''
      = join_lines (replicate 60 ''/codebase/src/a.py'')"
    unfolding at_src [THEN conjunct2, THEN conjunct2, THEN conjunct2, THEN conjunct2,
        THEN conjunct2]
    by code_simp
  show ?thesis using 1 2 3 4 5 6 7 8 9 by blast
qed

end
